theory Spec2Isabelle
  imports Complex_Main "HOL-Library.AList"
begin

section \<open>LRUCache (LRUCache.ts)\<close>

text \<open>
  The class keeps its entries in a JavaScript \<open>Map\<close>, which iterates in insertion
  order. The model is an association list in that order: \<open>Map.set\<close> is
  \<^const>\<open>AList.update\<close> (a present key keeps its place, a new key goes to the end),
  \<open>Map.delete\<close> is \<^const>\<open>AList.delete\<close>. The disposal hook \<open>onRemove\<close> is a callback
  with an effect only; the field \<open>onRemove\<close> of the model is the log of the payloads
  it has been called with, oldest first. The capacity, the field \<open>max\<close> of the class and
  \<open>max_size\<close> here, is a natural number (both caches of the program are built with
  \<open>LRUCount = 200\<close>). A payload argument
  is an option: \<open>None\<close> is JavaScript's \<open>null\<close>/\<open>undefined\<close>, the falsy value that an
  object-typed payload can take.
\<close>

record 'a LRUCache =
  max_size :: nat
  onRemove :: "'a list"
  data :: "(string \<times> 'a) list"

definition has :: "'a LRUCache \<Rightarrow> string \<Rightarrow> bool" where
  "has c key = (key \<in> set (map fst (data c)))"

definition keys :: "'a LRUCache \<Rightarrow> string list" where
  "keys c = map fst (data c)"

definition getAndRemove :: "string \<Rightarrow> 'a LRUCache \<Rightarrow> 'a option \<times> 'a LRUCache" where
  "getAndRemove key c =
     (if \<not> has c key then (None, c)
      else (map_of (data c) key, c\<lparr>data := AList.delete key (data c)\<rparr>))"

text \<open>
  \<open>shrink\<close> walks a live iterator over the keys and deletes each key it is handed, so
  the key of every round is the first key still in the map.
\<close>

function shrink :: "'a LRUCache \<Rightarrow> 'a LRUCache" where
  "shrink c =
     (if length (data c) > max_size c then
        (case data c of
           [] \<Rightarrow> c
         | (k, v) # rest \<Rightarrow>
             (case getAndRemove k c of
                (Some removedData, c') \<Rightarrow> shrink (c'\<lparr>onRemove := onRemove c' @ [removedData]\<rparr>)
              | (None, c') \<Rightarrow> shrink c'))
      else c)"
  by pat_completeness auto
termination
proof (relation "measure (\<lambda>c. length (data c))")
  show "wf (measure (\<lambda>c::'a LRUCache. length (data c)))" by simp
next
  fix c :: "'a LRUCache" and x21 x22 k v x y x2
  assume "data c = x21 # x22" "(k, v) = x21" "(x, y) = getAndRemove k c" "x = Some x2"
  then show "(y\<lparr>onRemove := onRemove y @ [x2]\<rparr>, c) \<in> measure (\<lambda>c. length (data c))"
    by (auto simp: getAndRemove_def has_def AList.delete_eq less_Suc_eq_le split: if_splits)
next
  fix c :: "'a LRUCache" and x21 x22 k v x y
  assume "data c = x21 # x22" "(k, v) = x21" "(x, y) = getAndRemove k c" "x = None"
  then show "(y, c) \<in> measure (\<lambda>c. length (data c))"
    by (auto simp: getAndRemove_def has_def AList.delete_eq less_Suc_eq_le split: if_splits)
qed

declare shrink.simps [simp del]

definition add :: "string \<Rightarrow> 'a option \<Rightarrow> 'a LRUCache \<Rightarrow> 'a LRUCache" where
  "add key d c =
     (case d of
        None \<Rightarrow> c
      | Some v \<Rightarrow>
          (if has c key then
             (let c1 = c\<lparr>data := AList.delete key (data c)\<rparr>;
                  c2 = c1\<lparr>data := AList.update key v (data c1)\<rparr>
              in if length (data c2) > max_size c2 then shrink c2 else c2)
           else
             (let c2 = c\<lparr>data := AList.update key v (data c)\<rparr>
              in if length (data c2) > max_size c2 then shrink c2 else c2)))"

text \<open>\<open>get\<close> reads only; the cache is returned with the payload to show that.\<close>

definition get :: "string \<Rightarrow> 'a LRUCache \<Rightarrow> 'a option \<times> 'a LRUCache" where
  "get key c = (if \<not> has c key then (None, c) else (map_of (data c) key, c))"

section \<open>Fetching, caching and cancellation (tileget.ts)\<close>

text \<open>
  Image bitmaps and array buffers are objects: the model keeps them in a store, a map
  from references to contents, so that handing out the cache's own object and handing
  out a duplicate of it are different results. \<open>createImageBitmap\<close> allocates a new
  reference with the same content and fails on a closed bitmap. Abort controllers are
  references as well; \<open>signals\<close> holds the reason each one was aborted with. The
  table \<open>CONTROLCACHE\<close> is an object used as a dictionary, modelled in insertion order
  because \<open>finishFetch\<close> enumerates its keys. \<open>events\<close> records the cache lookups and
  network requests in the order they are made.

  A call of \<open>fetchTile\<close> is modelled as one step in which the network answers at
  once, with the answer given as a parameter; request headers, timers and the
  interleaving of concurrent calls are outside the model.
\<close>

datatype error =
  InnerError string
  | NetWorkError string
  | FetchCancelError
  | FetchTimeoutError
  | OtherError string

datatype event = CacheGet string | NetFetch string

datatype response =
  Rejected error
  | Response bool "error + nat list"

datatype tileUrl = Url string | Bitmap nat

record fetchOptions =
  taskId :: "string option"
  disableCache :: bool

record fetchState =
  heap :: "nat \<Rightarrow> nat list option"
  next_ref :: nat
  tileImageCache :: "nat LRUCache"
  tileBufferCache :: "nat LRUCache"
  CONTROLCACHE :: "(string \<times> nat list) list"
  signals :: "nat \<Rightarrow> error option"
  next_control :: nat
  events :: "event list"

definition LRUCount :: nat where
  "LRUCount = 200"

definition initialState :: fetchState where
  "initialState =
     \<lparr>heap = (\<lambda>_. None), next_ref = 0,
      tileImageCache = \<lparr>max_size = LRUCount, onRemove = [], data = []\<rparr>,
      tileBufferCache = \<lparr>max_size = LRUCount, onRemove = [], data = []\<rparr>,
      CONTROLCACHE = [], signals = (\<lambda>_. None), next_control = 0, events = []\<rparr>"

text \<open>\<open>!taskId\<close>: an absent task id and the empty string are falsy.\<close>

definition falsy :: "string option \<Rightarrow> bool" where
  "falsy t = (t = None \<or> t = Some [])"

definition controlList :: "fetchState \<Rightarrow> string \<Rightarrow> nat list" where
  "controlList s t = (case map_of (CONTROLCACHE s) t of None \<Rightarrow> [] | Some l \<Rightarrow> l)"

definition cacheFetch :: "string \<Rightarrow> nat \<Rightarrow> fetchState \<Rightarrow> fetchState" where
  "cacheFetch t control s =
     s\<lparr>CONTROLCACHE := AList.update t (controlList s t @ [control]) (CONTROLCACHE s)\<rparr>"

text \<open>\<open>control.abort(reason)\<close>: a controller that is aborted already keeps its reason.\<close>

definition abort :: "error \<Rightarrow> nat \<Rightarrow> fetchState \<Rightarrow> fetchState" where
  "abort reason control s =
     (case signals s control of
        None \<Rightarrow> s\<lparr>signals := (signals s)(control := Some reason)\<rparr>
      | Some _ \<Rightarrow> s)"

definition cancelFetch :: "string \<Rightarrow> fetchState \<Rightarrow> fetchState" where
  "cancelFetch t s =
     (let s1 = fold (abort FetchCancelError) (controlList s t) s
      in s1\<lparr>CONTROLCACHE := AList.delete t (CONTROLCACHE s1)\<rparr>)"

text \<open>\<open>controlList.splice(controlList.indexOf(control), 1)\<close> removes the first occurrence.\<close>

definition finishFetch :: "nat \<Rightarrow> fetchState \<Rightarrow> fetchState" where
  "finishFetch control s =
     (let spliced = map (\<lambda>(k, l). (k, remove1 control l)) (CONTROLCACHE s);
          deletekeys = map fst (filter (\<lambda>(k, l). l = []) spliced)
      in s\<lparr>CONTROLCACHE := fold AList.delete deletekeys spliced\<rparr>)"

definition newAbortController :: "fetchState \<Rightarrow> nat \<times> fetchState" where
  "newAbortController s = (next_control s, s\<lparr>next_control := Suc (next_control s)\<rparr>)"

definition alloc :: "nat list \<Rightarrow> fetchState \<Rightarrow> nat \<times> fetchState" where
  "alloc content s =
     (next_ref s, s\<lparr>heap := (heap s)(next_ref s \<mapsto> content), next_ref := Suc (next_ref s)\<rparr>)"

definition createImageBitmap :: "nat \<Rightarrow> fetchState \<Rightarrow> (error + nat) \<times> fetchState" where
  "createImageBitmap img s =
     (case heap s img of
        None \<Rightarrow> (Inl (OtherError ''InvalidStateError''), s)
      | Some content \<Rightarrow> (let (r, s') = alloc content s in (Inr r, s')))"

definition copyImageBitMap :: "nat \<Rightarrow> fetchState \<Rightarrow> (error + nat) \<times> fetchState" where
  "copyImageBitMap img s = createImageBitmap img s"

definition copyBuffer :: "nat \<Rightarrow> fetchState \<Rightarrow> (error + nat) \<times> fetchState" where
  "copyBuffer buffer s = (Inr buffer, s)"

text \<open>
  Modelled from the spec: \<open>disposeImage\<close> of util.ts, the disposal hook of the image
  cache, which releases the payload's native resource: the bitmap is closed and its
  content leaves the store. The hook of the buffer cache has an empty body.
\<close>

definition disposeImage :: "nat \<Rightarrow> fetchState \<Rightarrow> fetchState" where
  "disposeImage img s = s\<lparr>heap := (heap s)(img := None)\<rparr>"

definition tileImageCache_add :: "string \<Rightarrow> nat \<Rightarrow> fetchState \<Rightarrow> fetchState" where
  "tileImageCache_add url img s =
     (let c = tileImageCache s;
          c' = add url (Some img) c;
          removed = drop (length (onRemove c)) (onRemove c')
      in fold disposeImage removed (s\<lparr>tileImageCache := c'\<rparr>))"

definition tileBufferCache_add :: "string \<Rightarrow> nat \<Rightarrow> fetchState \<Rightarrow> fetchState" where
  "tileBufferCache_add url buffer s = s\<lparr>tileBufferCache := add url (Some buffer) (tileBufferCache s)\<rparr>"

definition logEvent :: "event \<Rightarrow> fetchState \<Rightarrow> fetchState" where
  "logEvent e s = s\<lparr>events := events s @ [e]\<rparr>"

text \<open>
  A response that is not ok rejects the promise with the network error and the chain
  goes on; a promise settles once, so the later resolve or reject is lost. The result
  of the step is the first settlement.
\<close>

definition fetchTile ::
  "(string \<Rightarrow> response) \<Rightarrow> tileUrl \<Rightarrow> fetchOptions \<Rightarrow> fetchState \<Rightarrow> (error + nat) \<times> fetchState" where
  "fetchTile net url options s =
     (case url of
        Bitmap img \<Rightarrow> copyImageBitMap img s
      | Url u \<Rightarrow>
          (if falsy (taskId options) then (Inl (InnerError ''taskId is null''), s)
           else
             (case fst (get u (tileImageCache (logEvent (CacheGet u) s))) of
                Some img \<Rightarrow> copyImageBitMap img (logEvent (CacheGet u) s)
              | None \<Rightarrow>
                  (let (control, s1) = newAbortController (logEvent (CacheGet u) s);
                       s2 = logEvent (NetFetch u) (cacheFetch (the (taskId options)) control s1)
                   in case net u of
                        Rejected e \<Rightarrow> (Inl e, finishFetch control s2)
                      | Response ok body \<Rightarrow>
                          (case body of
                             Inl e \<Rightarrow>
                               (Inl (if ok then e else NetWorkError u), finishFetch control s2)
                           | Inr content \<Rightarrow>
                               (let (img, s3) = alloc content s2;
                                    s4 = (if \<not> disableCache options
                                          then tileImageCache_add u img s3 else s3);
                                    (r, s5) = copyImageBitMap img (finishFetch control s4)
                                in (if ok then r else Inl (NetWorkError u), s5)))))))"

definition fetchTileBuffer ::
  "(string \<Rightarrow> response) \<Rightarrow> string \<Rightarrow> fetchOptions \<Rightarrow> fetchState \<Rightarrow> (error + nat) \<times> fetchState" where
  "fetchTileBuffer net u options s =
     (if falsy (taskId options) then (Inl (InnerError ''taskId is null''), s)
      else
        (case fst (get u (tileBufferCache (logEvent (CacheGet u) s))) of
           Some buffer \<Rightarrow> copyBuffer buffer (logEvent (CacheGet u) s)
         | None \<Rightarrow>
             (let (control, s1) = newAbortController (logEvent (CacheGet u) s);
                  s2 = logEvent (NetFetch u) (cacheFetch (the (taskId options)) control s1)
              in case net u of
                   Rejected e \<Rightarrow> (Inl e, finishFetch control s2)
                 | Response ok body \<Rightarrow>
                     (case body of
                        Inl e \<Rightarrow>
                          (Inl (if ok then e else NetWorkError u), finishFetch control s2)
                      | Inr content \<Rightarrow>
                          (let (buffer, s3) = alloc content s2;
                               s4 = (if \<not> disableCache options
                                     then tileBufferCache_add u buffer s3 else s3);
                               (r, s5) = copyBuffer buffer (finishFetch control s4)
                           in (if ok then r else Inl (NetWorkError u), s5))))))"

text \<open>
  The registry of a running program: every controller is made by \<open>new AbortController()\<close> and
  registered once, so no controller occurs twice in the table, and the keys of the
  table are distinct as the properties of an object are.
\<close>

definition registry_ok :: "fetchState \<Rightarrow> bool" where
  "registry_ok s =
     (distinct (map fst (CONTROLCACHE s)) \<and> distinct (concat (map snd (CONTROLCACHE s)))
      \<and> list_all (\<lambda>c. c < next_control s) (concat (map snd (CONTROLCACHE s))))"

section \<open>Coverage planning (tile transform: constants, boxes, offset correction)\<close>

text \<open>
  In the planner a JavaScript number is a real: finite values without rounding. A tile
  coordinate is an integer triple, on which the \<open>Math.floor\<close> of \<open>tile4326BBOX\<close> is
  the identity. The projection library (\<open>SphericalMercator\<close>) and the coordinate
  library (\<open>gcoord\<close>) are not code of this program; their functions are parameters,
  collected in the record \<open>geo\<close>.
\<close>

type_synonym point = "real \<times> real"
type_synonym BBOXtype = "real \<times> real \<times> real \<times> real"
type_synonym tile = "int \<times> int \<times> int"

datatype CRS = WebMercator | WGS84 | AMap

record geo =
  merc_bbox :: "int \<Rightarrow> int \<Rightarrow> int \<Rightarrow> BBOXtype"
  merc_bbox_900913 :: "int \<Rightarrow> int \<Rightarrow> int \<Rightarrow> BBOXtype"
  merc_forward :: "point \<Rightarrow> point"
  gcoord_transform :: "CRS \<Rightarrow> CRS \<Rightarrow> point \<Rightarrow> point"

definition FirstRes :: real where
  "FirstRes = 1.40625"

definition mFirstRes :: real where
  "mFirstRes = 156543.03392804097"

definition TILESIZE :: real where
  "TILESIZE = 256"

definition ORIGIN :: point where
  "ORIGIN = (-180, 90)"

definition MORIGIN :: point where
  "MORIGIN = (-20037508.342787, 20037508.342787)"

definition get4326Res :: "int \<Rightarrow> real" where
  "get4326Res zoom = FirstRes / (2 powi zoom)"

definition get3857Res :: "int \<Rightarrow> real" where
  "get3857Res zoom = mFirstRes / (2 powi zoom)"

definition tile4326BBOX :: "int \<Rightarrow> int \<Rightarrow> int \<Rightarrow> BBOXtype" where
  "tile4326BBOX tx ty tz =
     (let (orginX, orginY) = ORIGIN;
          res = get4326Res tz * TILESIZE;
          mincol = tx; minrow = ty;
          xmin = orginX + real_of_int mincol * res;
          xmax = orginX + real_of_int (mincol + 1) * res;
          ymin = - orginY + real_of_int minrow * res;
          ymax = - orginY + real_of_int (minrow + 1) * res
      in (xmin, ymin, xmax, ymax))"

text \<open>
  Modelled from the spec: \<open>bboxToPoints\<close>, \<open>pointsToBBOX\<close> and \<open>bboxOfBBOXList\<close> of
  bbox.ts: the four corner points of a box, the min/max over a list of points, and the
  union of a list of boxes. The two folds are applied to non-empty lists only.
\<close>

definition bboxToPoints :: "BBOXtype \<Rightarrow> point list" where
  "bboxToPoints b =
     (case b of (minx, miny, maxx, maxy) \<Rightarrow>
        [(minx, miny), (maxx, miny), (maxx, maxy), (minx, maxy)])"

text \<open>
  The body of the \<open>forEach\<close> loops that keep a running min/max. Their accumulators
  start at \<open>\<plusminus>Infinity\<close>, which the first point replaces.
\<close>

fun extendBBOX :: "point \<Rightarrow> BBOXtype \<Rightarrow> BBOXtype" where
  "extendBBOX (px, py) (minx, miny, maxx, maxy) = (min minx px, min miny py, max maxx px, max maxy py)"

definition minmax :: "point list \<Rightarrow> BBOXtype" where
  "minmax ps = fold extendBBOX (tl ps) (case hd ps of (px, py) \<Rightarrow> (px, py, px, py))"

definition pointsToBBOX :: "point list \<Rightarrow> BBOXtype" where
  "pointsToBBOX ps = minmax ps"

definition bboxOfBBOXList :: "BBOXtype list \<Rightarrow> BBOXtype" where
  "bboxOfBBOXList bs = minmax (concat (map bboxToPoints bs))"

text \<open>
  \<open>lnglat2Mercator\<close> is imported from util.ts, which is not among the sources; the
  model follows the function of the same name that the clip module defines for itself.
  Latitudes whose sine is 1 are outside the model (the source divides by zero there).
\<close>

definition lnglat2Mercator :: "point \<Rightarrow> point" where
  "lnglat2Mercator c =
     (case c of (lng, lat) \<Rightarrow>
        (let earthRad = 6378137;
             mx = lng * pi / 180 * earthRad;
             a = lat * pi / 180;
             my = earthRad / 2 * ln ((1 + sin a) / (1 - sin a))
         in (mx, my)))"

text \<open>\<open>offsetTileBBOX\<close> overwrites the box it is given; the model returns the new box.\<close>

definition offsetTileBBOX :: "geo \<Rightarrow> BBOXtype \<Rightarrow> string \<Rightarrow> bool \<Rightarrow> BBOXtype" where
  "offsetTileBBOX g b proj isGCJ02 =
     (if \<not> isGCJ02 then b
      else
        (let points = bboxToPoints b;
             newPoints = map (\<lambda>p. if proj = ''EPSG:3857''
                                   then gcoord_transform g WebMercator WGS84 p else p) points;
             transformPoints = map (gcoord_transform g WGS84 AMap) newPoints;
             (minx, miny, maxx, maxy) = minmax transformPoints
         in if proj = ''EPSG:4326'' then (minx, miny, maxx, maxy)
            else minmax (map lnglat2Mercator (bboxToPoints (minx, miny, maxx, maxx)))))"


text \<open>\<open>for (let i = lo; i <= hi; i++) body\<close> over a state.\<close>

function for_loop :: "int \<Rightarrow> int \<Rightarrow> (int \<Rightarrow> 's \<Rightarrow> 's) \<Rightarrow> 's \<Rightarrow> 's" where
  "for_loop i hi body s = (if i \<le> hi then for_loop (i + 1) hi body (body i s) else s)"
  by pat_completeness auto
termination
  by (relation "measure (\<lambda>(i, hi, body, s). nat (hi + 1 - i))") auto

declare for_loop.simps [simp del]

record TilePlan =
  tiles :: "tile list"
  tilesbbox :: BBOXtype
  bbox :: BBOXtype
  mbbox :: BBOXtype
  tile_x :: int
  tile_y :: int
  tile_z :: int

text \<open>
  The index ranges that the two planners compute from the box of the requested tile
  (the four \<open>Math.floor\<close> lines), as \<open>(mincol, maxcol, minrow, maxrow)\<close>.
\<close>

definition tileRange :: "point \<Rightarrow> real \<Rightarrow> BBOXtype \<Rightarrow> int \<times> int \<times> int \<times> int" where
  "tileRange origin res b =
     (case (origin, b) of ((orginX, orginY), (minx, miny, maxx, maxy)) \<Rightarrow>
        (\<lfloor>(minx - orginX) / res\<rfloor>, \<lfloor>(maxx - orginX) / res\<rfloor>,
         \<lfloor>(orginY - maxy) / res\<rfloor>, \<lfloor>(orginY - miny) / res\<rfloor>))"

definition cal4326Tiles :: "geo \<Rightarrow> int \<Rightarrow> int \<Rightarrow> int \<Rightarrow> int \<Rightarrow> bool \<Rightarrow> TilePlan option" where
  "cal4326Tiles g tx ty tz zoomOffset isGCJ02 =
     (let (orginX, orginY) = ORIGIN;
          res = get4326Res tz * TILESIZE;
          tileBBOX = offsetTileBBOX g (merc_bbox g tx ty tz) ''EPSG:4326'' isGCJ02;
          (mincol, maxcol, minrow, maxrow) = tileRange ORIGIN res tileBBOX
      in if maxcol < mincol \<or> maxrow < minrow then None
         else
           (let ts = for_loop minrow maxrow (\<lambda>row.
                       for_loop mincol maxcol (\<lambda>col acc. acc @ [(col - 1, row, tz + zoomOffset)])) [];
                xmin = orginX + real_of_int (mincol - 1) * res;
                xmax = orginX + real_of_int maxcol * res;
                ymin = orginY - real_of_int (maxrow + 1) * res;
                ymax = orginY - real_of_int minrow * res;
                coordinates = map lnglat2Mercator (bboxToPoints tileBBOX)
            in Some \<lparr>tiles = ts, tilesbbox = (xmin, ymin, xmax, ymax), bbox = tileBBOX,
                     mbbox = pointsToBBOX coordinates, tile_x = tx, tile_y = ty, tile_z = tz\<rparr>))"

definition cal3857Tiles :: "geo \<Rightarrow> int \<Rightarrow> int \<Rightarrow> int \<Rightarrow> int \<Rightarrow> bool \<Rightarrow> TilePlan option" where
  "cal3857Tiles g tx ty tz zoomOffset isGCJ02 =
     (let res = get3857Res tz * TILESIZE;
          tileBBOX = offsetTileBBOX g (tile4326BBOX tx ty tz) ''EPSG:4326'' isGCJ02;
          mb = pointsToBBOX (map (merc_forward g) (bboxToPoints tileBBOX));
          (mincol, maxcol, minrow, maxrow) = tileRange MORIGIN res mb
      in if maxcol < mincol \<or> maxrow < minrow then None
         else
           (let ts = for_loop minrow maxrow (\<lambda>row.
                       for_loop mincol maxcol (\<lambda>col acc. acc @ [(col, row, tz + zoomOffset)])) [];
                bboxList = map (\<lambda>(cx, cy, cz). merc_bbox_900913 g cx cy cz) ts
            in Some \<lparr>tiles = ts, tilesbbox = bboxOfBBOXList bboxList, bbox = tileBBOX,
                     mbbox = mb, tile_x = tx, tile_y = ty, tile_z = tz\<rparr>))"

text \<open>
  The ranges \<open>(mincol, maxcol, minrow, maxrow)\<close> that \<open>cal4326Tiles\<close> and
  \<open>cal3857Tiles\<close> compute for a request, named so that properties of the enumerated
  tiles can refer to them.
\<close>

definition range4326 :: "geo \<Rightarrow> int \<Rightarrow> int \<Rightarrow> int \<Rightarrow> bool \<Rightarrow> int \<times> int \<times> int \<times> int" where
  "range4326 g tx ty tz isGCJ02 =
     tileRange ORIGIN (get4326Res tz * TILESIZE)
       (offsetTileBBOX g (merc_bbox g tx ty tz) ''EPSG:4326'' isGCJ02)"

definition range3857 :: "geo \<Rightarrow> int \<Rightarrow> int \<Rightarrow> int \<Rightarrow> bool \<Rightarrow> int \<times> int \<times> int \<times> int" where
  "range3857 g tx ty tz isGCJ02 =
     tileRange MORIGIN (get3857Res tz * TILESIZE)
       (pointsToBBOX (map (merc_forward g)
          (bboxToPoints (offsetTileBBOX g (tile4326BBOX tx ty tz) ''EPSG:4326'' isGCJ02))))"

definition inverted :: "int \<times> int \<times> int \<times> int \<Rightarrow> bool" where
  "inverted r = (case r of (mincol, maxcol, minrow, maxrow) \<Rightarrow> maxcol < mincol \<or> maxrow < minrow)"

section \<open>Resampler pass 2: the size guard of transformTiles\<close>

text \<open>
  The guard of \<open>transformTiles\<close> tests for \<open>NaN\<close> and \<open>\<plusminus>Infinity\<close>, so the sizes it
  tests are JavaScript numbers with their special values: \<open>Num r\<close> is a finite value
  (exact, and zero has no sign), and the operations follow IEEE-754 on the special
  values. \<open>Math.round\<close> rounds half up.
\<close>

datatype jsnum = NaN | PInf | NInf | Num real

type_synonym jsbbox = "jsnum \<times> jsnum \<times> jsnum \<times> jsnum"

fun jsub :: "jsnum \<Rightarrow> jsnum \<Rightarrow> jsnum" where
  "jsub NaN _ = NaN"
| "jsub _ NaN = NaN"
| "jsub PInf PInf = NaN"
| "jsub NInf NInf = NaN"
| "jsub PInf _ = PInf"
| "jsub NInf _ = NInf"
| "jsub (Num a) PInf = NInf"
| "jsub (Num a) NInf = PInf"
| "jsub (Num a) (Num b) = Num (a - b)"

fun jdiv :: "jsnum \<Rightarrow> jsnum \<Rightarrow> jsnum" where
  "jdiv NaN _ = NaN"
| "jdiv _ NaN = NaN"
| "jdiv PInf (Num b) = (if b < 0 then NInf else PInf)"
| "jdiv NInf (Num b) = (if b < 0 then PInf else NInf)"
| "jdiv PInf _ = NaN"
| "jdiv NInf _ = NaN"
| "jdiv (Num a) PInf = Num 0"
| "jdiv (Num a) NInf = Num 0"
| "jdiv (Num a) (Num b) =
     (if b = 0 then (if a = 0 then NaN else if 0 < a then PInf else NInf) else Num (a / b))"

fun jround :: "jsnum \<Rightarrow> jsnum" where
  "jround (Num a) = Num (real_of_int \<lfloor>a + 1 / 2\<rfloor>)"
| "jround v = v"

fun jmin :: "jsnum \<Rightarrow> jsnum \<Rightarrow> jsnum" where
  "jmin NaN _ = NaN"
| "jmin _ NaN = NaN"
| "jmin NInf _ = NInf"
| "jmin _ NInf = NInf"
| "jmin PInf v = v"
| "jmin v PInf = v"
| "jmin (Num a) (Num b) = Num (min a b)"

fun jmax :: "jsnum \<Rightarrow> jsnum \<Rightarrow> jsnum" where
  "jmax NaN _ = NaN"
| "jmax _ NaN = NaN"
| "jmax PInf _ = PInf"
| "jmax _ PInf = PInf"
| "jmax NInf v = v"
| "jmax v NInf = v"
| "jmax (Num a) (Num b) = Num (max a b)"

fun jabs :: "jsnum \<Rightarrow> jsnum" where
  "jabs NInf = PInf"
| "jabs (Num a) = Num \<bar>a\<bar>"
| "jabs v = v"

definition isNaN :: "jsnum \<Rightarrow> bool" where
  "isNaN v = (v = NaN)"

definition jsbbox_of :: "BBOXtype \<Rightarrow> jsbbox" where
  "jsbbox_of b = (case b of (x1, y1, x2, y2) \<Rightarrow> (Num x1, Num y1, Num x2, Num y2))"

text \<open>
  The result of pass 1 (\<open>tilesImageData\<close>): the samples, each with the projected point
  \<open>point\<close> of its pixel and the rest of the sample (\<open>point1\<close> and the colour), and
  the box \<open>bbox\<close> of the projected points.
\<close>

record 'px pixelsresult =
  pixels :: "((jsnum \<times> jsnum) \<times> 'px) list"
  pixels_bbox :: jsbbox

text \<open>The first lines of \<open>transformTiles\<close>: the rounded width and height of the raster.\<close>

definition targetSize :: "'px pixelsresult \<Rightarrow> jsbbox \<Rightarrow> jsnum \<times> jsnum" where
  "targetSize pixelsresult mb =
     (case (mb, pixels_bbox pixelsresult) of ((xmin, ymin, xmax, ymax), (minx, miny, maxx, maxy)) \<Rightarrow>
        (let ax = jdiv (jsub xmax xmin) (Num TILESIZE);
             ay = jdiv (jsub ymax ymin) (Num TILESIZE);
             width = jround (jdiv (jsub maxx minx) ax);
             height = jround (jdiv (jsub maxy miny) ay)
         in (width, height)))"

text \<open>
  \<open>transformTiles\<close> returns nothing when the guard fires. Below the guard it draws on
  canvases; that part is the parameter \<open>draw\<close>.
\<close>

definition transformTiles ::
  "('px pixelsresult \<Rightarrow> jsbbox \<Rightarrow> bool \<Rightarrow> 'img) \<Rightarrow> 'px pixelsresult \<Rightarrow> jsbbox \<Rightarrow> bool \<Rightarrow> 'img option" where
  "transformTiles draw pixelsresult mb dbg =
     (case targetSize pixelsresult mb of (width, height) \<Rightarrow>
        if isNaN width \<or> isNaN height \<or> jmin width height = Num 0
           \<or> jabs width = PInf \<or> jabs height = PInf
        then None
        else Some (draw pixelsresult mb dbg))"

section \<open>The request: tileTransform\<close>

text \<open>
  The collaborators of a request are parameters: the tile fetch \<open>getTileWithMaxZoom\<close>
  (it answers with an image or an error and may change the world \<open>'w\<close> it runs in),
  the canvas operations, and the output encoder \<open>createImageTypeResult\<close>, whose
  answer settles the promise. The model returns the settlement, the tiles that were
  requested from \<open>getTileWithMaxZoom\<close> in order, and the world.
\<close>

record ('img, 'px, 'out, 'w) collaborators =
  getTileWithMaxZoom :: "tile \<Rightarrow> 'w \<Rightarrow> (error + 'img) \<times> 'w"
  getBlankTile :: 'img
  layoutTiles :: "(tile \<times> 'img option) list \<Rightarrow> bool \<Rightarrow> 'img"
  projectPixels :: "'img \<Rightarrow> BBOXtype \<Rightarrow> BBOXtype \<Rightarrow> string \<Rightarrow> ((jsnum \<times> jsnum) \<times> 'px) list"
  drawTile :: "'px pixelsresult \<Rightarrow> jsbbox \<Rightarrow> bool \<Rightarrow> 'img"
  createImageTypeResult :: "'img \<Rightarrow> error + 'out"

record transformOptions =
  opt_x :: int
  opt_y :: int
  opt_z :: int
  opt_projection :: string
  opt_zoomOffset :: int
  opt_errorLog :: bool
  opt_debug :: bool
  opt_isGCJ02 :: bool

definition returnImage :: "('img, 'px, 'out, 'w) collaborators \<Rightarrow> 'img \<Rightarrow> error + 'out" where
  "returnImage env opImage = createImageTypeResult env opImage"

text \<open>
  \<open>tilesImageData\<close> crops the mosaic and projects every pixel, which is canvas and
  library work: \<open>projectPixels\<close> gives the samples in the order of its loops. The box
  is the running min/max over the points of the samples, from \<open>\<plusminus>Infinity\<close>.
\<close>

definition tilesImageData ::
  "('img, 'px, 'out, 'w) collaborators \<Rightarrow> 'img \<Rightarrow> BBOXtype \<Rightarrow> BBOXtype \<Rightarrow> string \<Rightarrow> 'px pixelsresult" where
  "tilesImageData env img tb b proj =
     (let ps = projectPixels env img tb b proj
      in \<lparr>pixels = ps,
          pixels_bbox =
            fold (\<lambda>(pt, _) (xmin, ymin, xmax, ymax).
                    (jmin xmin (fst pt), jmin ymin (snd pt), jmax xmax (fst pt), jmax ymax (snd pt)))
              ps (PInf, PInf, NInf, NInf)\<rparr>)"

text \<open>
  The branch of \<open>loadTile\<close> that runs once every tile has its image: pass 1 and the
  frame of pass 2 for the projection of the request, then pass 2.
\<close>

definition pass2_input ::
  "('img, 'px, 'out, 'w) collaborators \<Rightarrow> transformOptions \<Rightarrow> TilePlan
     \<Rightarrow> (tile \<times> 'img option) list \<Rightarrow> 'px pixelsresult \<times> jsbbox" where
  "pass2_input env options result ts =
     (let img = layoutTiles env ts (opt_debug options)
      in if opt_projection options = ''EPSG:4326'' then
           (tilesImageData env img (tilesbbox result) (bbox result) (opt_projection options),
            jsbbox_of (mbbox result))
         else
           (tilesImageData env img (tilesbbox result) (mbbox result) (opt_projection options),
            jsbbox_of (bbox result)))"

definition resample ::
  "('img, 'px, 'out, 'w) collaborators \<Rightarrow> transformOptions \<Rightarrow> TilePlan
     \<Rightarrow> (tile \<times> 'img option) list \<Rightarrow> 'img option" where
  "resample env options result ts =
     (case pass2_input env options result ts of
        (imageData, mb) \<Rightarrow> transformTiles (drawTile env) imageData mb (opt_debug options))"

function loadTile ::
  "('img, 'px, 'out, 'w) collaborators \<Rightarrow> transformOptions \<Rightarrow> TilePlan \<Rightarrow> nat
     \<Rightarrow> (tile \<times> 'img option) list \<Rightarrow> tile list \<Rightarrow> 'w \<Rightarrow> (error + 'out) \<times> tile list \<times> 'w" where
  "loadTile env options result loadCount ts requested w =
     (if loadCount \<ge> length ts then
        (returnImage env (case resample env options result ts of
                            Some image1 \<Rightarrow> image1 | None \<Rightarrow> getBlankTile env),
         requested, w)
      else
        (let t = fst (ts ! loadCount);
             (r, w') = getTileWithMaxZoom env t w;
             tileImage = (case r of Inr img \<Rightarrow> img | Inl e \<Rightarrow> getBlankTile env)
         in loadTile env options result (loadCount + 1) (ts[loadCount := (t, Some tileImage)])
              (requested @ [t]) w'))"
  by pat_completeness auto
termination
  by (relation "measure (\<lambda>(env, options, result, loadCount, ts, requested, w). length ts - loadCount)") auto

declare loadTile.simps [simp del]

text \<open>The first lines of \<open>loadTiles\<close>: the plan for the projection of the request.\<close>

definition planTiles :: "geo \<Rightarrow> transformOptions \<Rightarrow> TilePlan option" where
  "planTiles g options =
     (if opt_projection options = ''EPSG:4326'' then
        cal4326Tiles g (opt_x options) (opt_y options) (opt_z options)
          (opt_zoomOffset options) (opt_isGCJ02 options)
      else if opt_projection options = ''EPSG:3857'' then
        cal3857Tiles g (opt_x options) (opt_y options) (opt_z options)
          (opt_zoomOffset options) (opt_isGCJ02 options)
      else None)"

definition tileTransform ::
  "geo \<Rightarrow> ('img, 'px, 'out, 'w) collaborators \<Rightarrow> transformOptions \<Rightarrow> 'w
     \<Rightarrow> (error + 'out) \<times> tile list \<times> 'w" where
  "tileTransform g env options w =
     (let result = planTiles g options
      in case result of
           None \<Rightarrow> (returnImage env (getBlankTile env), [], w)
         | Some plan \<Rightarrow>
             if tiles plan = [] then (returnImage env (getBlankTile env), [], w)
             else loadTile env options plan 0 (map (\<lambda>t. (t, None)) (tiles plan)) [] w)"

text \<open>
  The images a request ends up with, in the order of the tiles: what
  \<open>getTileWithMaxZoom\<close> answered, and the blank tile where it failed. The world is the
  one the fetches leave behind.
\<close>

fun fetchAll :: "('img, 'px, 'out, 'w) collaborators \<Rightarrow> tile list \<Rightarrow> 'w \<Rightarrow> 'img list \<times> 'w" where
  "fetchAll env [] w = ([], w)"
| "fetchAll env (t # ts) w =
     (case getTileWithMaxZoom env t w of
        (r, w') \<Rightarrow>
          (case fetchAll env ts w' of
             (imgs, w'') \<Rightarrow> ((case r of Inr img \<Rightarrow> img | Inl e \<Rightarrow> getBlankTile env) # imgs, w'')))"

definition loaded :: "('img, 'px, 'out, 'w) collaborators \<Rightarrow> tile list \<Rightarrow> 'w \<Rightarrow> (tile \<times> 'img option) list" where
  "loaded env ts w = zip ts (map Some (fst (fetchAll env ts w)))"

text \<open>
  A raster size that the specification calls degenerate: non-finite, at most 0, or
  \<open>NaN\<close>.
\<close>

fun degenerate_size :: "jsnum \<Rightarrow> bool" where
  "degenerate_size (Num a) = (a \<le> 0)"
| "degenerate_size v = True"

section \<open>Seam repair: checkBoundaryBlank\<close>

text \<open>
  \<open>data\<close> is the \<open>Uint8ClampedArray\<close> of the canvas, \<open>4 * width * height\<close> bytes in
  row-major order. Reading outside the array gives \<open>undefined\<close> (\<open>None\<close>), for which
  \<open>a > 0\<close> is false; writing outside is ignored, and writing \<open>undefined\<close> stores 0.
  Reading a plain array outside its range gives \<open>undefined\<close> too, which is falsy.
  The width and the height are those of the canvas, positive integers.
\<close>

definition rd :: "nat list \<Rightarrow> int \<Rightarrow> nat option" where
  "rd d i = (if 0 \<le> i \<and> i < int (length d) then Some (d ! nat i) else None)"

definition wr :: "nat list \<Rightarrow> int \<Rightarrow> nat option \<Rightarrow> nat list" where
  "wr d i v =
     (if 0 \<le> i \<and> i < int (length d) then d[nat i := (case v of None \<Rightarrow> 0 | Some b \<Rightarrow> b)] else d)"

definition gt0 :: "nat option \<Rightarrow> bool" where
  "gt0 a = (case a of None \<Rightarrow> False | Some v \<Rightarrow> v > 0)"

definition elem :: "bool list \<Rightarrow> int \<Rightarrow> bool option" where
  "elem xs i = (if 0 \<le> i \<and> i < int (length xs) then Some (xs ! nat i) else None)"

definition truthy :: "bool option \<Rightarrow> bool" where
  "truthy v = (v = Some True)"

text \<open>The four reads and four writes that copy the pixel at \<open>idx2\<close> to \<open>idx1\<close>.\<close>

definition copyPixel :: "int \<Rightarrow> int \<Rightarrow> nat list \<Rightarrow> nat list" where
  "copyPixel idx1 idx2 d =
     (let r = rd d idx2; g = rd d (idx2 + 1); b = rd d (idx2 + 2); a = rd d (idx2 + 3)
      in wr (wr (wr (wr d idx1 r) (idx1 + 1) g) (idx1 + 2) b) (idx1 + 3) a)"

text \<open>\<open>for (let i = lo; i <= hi; i++) { if (p i) return false; } return true;\<close>\<close>

function for_none :: "int \<Rightarrow> int \<Rightarrow> (int \<Rightarrow> bool) \<Rightarrow> bool" where
  "for_none i hi p = (if i \<le> hi then (if p i then False else for_none (i + 1) hi p) else True)"
  by pat_completeness auto
termination
  by (relation "measure (\<lambda>(i, hi, p). nat (hi + 1 - i))") auto

declare for_none.simps [simp del]

definition leftIsBlank :: "int \<Rightarrow> int \<Rightarrow> nat list \<Rightarrow> bool" where
  "leftIsBlank width height d =
     for_none 1 height (\<lambda>row. gt0 (rd d ((width * 4) * (row - 1) + 0 + 3)))"

definition colIsBlank :: "int \<Rightarrow> int \<Rightarrow> nat list \<Rightarrow> int \<Rightarrow> bool" where
  "colIsBlank width height d col =
     for_none 1 height (\<lambda>row. gt0 (rd d ((width * 4) * (row - 1) + (col - 1) * 4 + 3)))"

definition bottomIsBlank :: "int \<Rightarrow> int \<Rightarrow> nat list \<Rightarrow> bool" where
  "bottomIsBlank width height d =
     for_none 1 width (\<lambda>col. gt0 (rd d ((col - 1) * 4 + (height - 1) * width * 4 + 3)))"

definition fixCol :: "int \<Rightarrow> int \<Rightarrow> int \<Rightarrow> int \<Rightarrow> nat list \<Rightarrow> nat list" where
  "fixCol width height col1 col2 d =
     for_loop 1 height (\<lambda>row. copyPixel ((width * 4) * (row - 1) + (col1 - 1) * 4)
                                         ((width * 4) * (row - 1) + (col2 - 1) * 4)) d"

definition checkBoundaryBlank :: "int \<Rightarrow> int \<Rightarrow> nat list \<Rightarrow> nat list" where
  "checkBoundaryBlank width height d =
     (let d1 = (if leftIsBlank width height d
                then for_loop 1 height (\<lambda>row. copyPixel ((width * 4) * (row - 1) + 0)
                                                          ((width * 4) * (row - 1) + 0 + 4)) d
                else d);
          d2 = (if bottomIsBlank width height d1
                then for_loop 1 width (\<lambda>col. copyPixel ((col - 1) * 4 + (height - 1) * width * 4)
                                                         ((col - 1) * 4 + (height - 2) * width * 4)) d1
                else d1);
          colBlanks = for_loop 1 width (\<lambda>col acc. acc @ [colIsBlank width height d2 col]) [];
          hasColBlank = (True \<in> set colBlanks)
      in if hasColBlank then
           for_loop 1 width (\<lambda>col d'.
             (let current = elem colBlanks (col - 1)
              in if \<not> truthy current then d'
                 else
                   (let next = elem colBlanks col; pre = elem colBlanks (col - 1)
                    in if \<not> truthy next then fixCol width height col (col + 1) d'
                       else if \<not> truthy pre then fixCol width height col (col - 1) d'
                       else d'))) d2
         else d2)"

section \<open>Auxiliary notions for the properties\<close>

text \<open>
  A box whose minimum corner is not beyond its maximum corner, and the same for the
  running min/max of pass 1, which starts at \<open>(Infinity, -Infinity)\<close> and turns into
  \<open>(NaN, NaN)\<close> at the first \<open>NaN\<close>.
\<close>

definition ordered :: "BBOXtype \<Rightarrow> bool" where
  "ordered b = (case b of (minx, miny, maxx, maxy) \<Rightarrow> minx \<le> maxx \<and> miny \<le> maxy)"

fun ext_ok :: "jsnum \<Rightarrow> jsnum \<Rightarrow> bool" where
  "ext_ok PInf NInf = True"
| "ext_ok NaN NaN = True"
| "ext_ok NaN _ = False"
| "ext_ok _ NaN = False"
| "ext_ok NInf _ = True"
| "ext_ok _ PInf = True"
| "ext_ok (Num a) (Num b) = (a \<le> b)"
| "ext_ok _ _ = False"

fun nonneg_size :: "jsnum \<Rightarrow> bool" where
  "nonneg_size (Num a) = (0 \<le> a)"
| "nonneg_size v = True"

text \<open>
  Concrete collaborators for the examples. \<open>geo0\<close> answers every \<open>merc.bbox\<close> with
  the box of the mercator tile \<open>(0, 0, 0)\<close> in degrees and leaves points as they are;
  \<open>geo_inverted\<close> answers with a box whose corners are swapped. \<open>env0\<close> fails to
  fetch tiles of a negative column, has no pixels to project, and encodes an image as
  itself; \<open>env1\<close> fails every fetch and projects two pixels that span the frame.
  Images are numbers, the blank tile is 0, and the world counts the fetches.
\<close>

definition geo0 :: geo where
  "geo0 = \<lparr>merc_bbox = (\<lambda>_ _ _. (-180, -85.0511, 180, 85.0511)),
            merc_bbox_900913 = (\<lambda>_ _ _. (0, 0, 1, 1)),
            merc_forward = (\<lambda>p. p),
            gcoord_transform = (\<lambda>_ _ p. p)\<rparr>"

definition geo_inverted :: geo where
  "geo_inverted = \<lparr>merc_bbox = (\<lambda>_ _ _. (180, -85.0511, -180, 85.0511)),
            merc_bbox_900913 = (\<lambda>_ _ _. (0, 0, 1, 1)),
            merc_forward = (\<lambda>p. p),
            gcoord_transform = (\<lambda>_ _ p. p)\<rparr>"

definition env0 :: "(nat, unit, nat, nat) collaborators" where
  "env0 = \<lparr>getTileWithMaxZoom = (\<lambda>t w. (if fst t < 0 then Inl (NetWorkError ''tile'') else Inr 7, Suc w)),
            getBlankTile = 0,
            layoutTiles = (\<lambda>ts dbg. 2),
            projectPixels = (\<lambda>img tb b proj. []),
            drawTile = (\<lambda>imageData mb dbg. 1),
            createImageTypeResult = (\<lambda>img. Inr img)\<rparr>"

definition env1 :: "(nat, unit, nat, nat) collaborators" where
  "env1 = \<lparr>getTileWithMaxZoom = (\<lambda>t w. (Inl (NetWorkError ''tile''), Suc w)),
            getBlankTile = 0,
            layoutTiles = (\<lambda>ts dbg. 2),
            projectPixels = (\<lambda>img tb b proj. [((Num (-180), Num (-90)), ()), ((Num 180, Num 270), ())]),
            drawTile = (\<lambda>imageData mb dbg. 1),
            createImageTypeResult = (\<lambda>img. Inr img)\<rparr>"



definition request :: "string \<Rightarrow> transformOptions" where
  "request proj = \<lparr>opt_x = 0, opt_y = 0, opt_z = 0, opt_projection = proj, opt_zoomOffset = 0,
                    opt_errorLog = False, opt_debug = False, opt_isGCJ02 = False\<rparr>"

text \<open>
  A network that answers every request with three bytes, and a state with three
  fetches in flight: two for task \<open>T\<close> and one for task \<open>U\<close>.
\<close>

definition net_ok :: "string \<Rightarrow> response" where
  "net_ok u = Response True (Inr [1, 2, 3])"

definition inflight :: fetchState where
  "inflight =
     (let (c0, s0) = newAbortController initialState; s1 = cacheFetch ''T'' c0 s0;
          (c1, s2) = newAbortController s1; s3 = cacheFetch ''U'' c1 s2;
          (c2, s4) = newAbortController s3
      in cacheFetch ''T'' c2 s4)"

text \<open>
  The index of the first byte of the pixel in row \<open>row\<close> and column \<open>col\<close>, both
  counted from 1 as the loops of \<open>checkBoundaryBlank\<close> do, and a raster of 256 by 256
  pixels whose first column is opaque red and whose other columns are transparent.
\<close>

definition pixelIndex :: "int \<Rightarrow> int \<Rightarrow> int \<Rightarrow> int" where
  "pixelIndex width row col = (width * 4) * (row - 1) + (col - 1) * 4"

definition stripe :: "nat list" where
  "stripe = concat (replicate 256 ([255, 0, 0, 255] @ replicate 1020 0))"

section \<open>Properties of the LRU cache\<close>

lemma delete_absent: "k \<notin> fst ` set xs \<Longrightarrow> AList.delete k xs = xs"
  by (induction xs) auto

lemma update_absent: "k \<notin> fst ` set xs \<Longrightarrow> AList.update k v xs = xs @ [(k, v)]"
  by (induction xs) auto

lemma shrink_fits: "length (data c) \<le> max_size c \<Longrightarrow> shrink c = c"
  by (subst shrink.simps) simp

lemma shrink_one:
  assumes "data c = (k, v) # rest" "k \<notin> fst ` set rest" "length rest = max_size c"
  shows "shrink c = c\<lparr>data := rest, onRemove := onRemove c @ [v]\<rparr>"
proof -
  have "getAndRemove k c = (Some v, c\<lparr>data := rest\<rparr>)"
    using assms by (simp add: getAndRemove_def has_def delete_absent)
  moreover have "shrink (c\<lparr>data := rest, onRemove := onRemove c @ [v]\<rparr>)
      = c\<lparr>data := rest, onRemove := onRemove c @ [v]\<rparr>"
    using assms by (intro shrink_fits) simp
  ultimately show ?thesis
    using assms by (subst shrink.simps) simp
qed

text \<open>
  C3, as the code has it. A cache of capacity \<open>max\<close> that holds \<open>max\<close> distinct keys and
  is given one more key with a payload becomes the map with the new entry appended and
  its first entry dropped: it evicts exactly the first key in insertion order, the
  least recently added one (with \<open>max = 0\<close> that is the key just added), and calls the
  disposal hook once, on that entry's payload. A call of \<open>add\<close> with a falsy payload
  changes nothing. \<open>get\<close> returns the payload of every key the cache holds and leaves
  the cache as it is: reading a key does not move it.
\<close>

theorem lru_add_evicts_oldest:
  assumes "distinct (keys c)" and "length (data c) = max_size c" and "\<not> has c key"
  shows "add key (Some v) c
           = c\<lparr>data := tl (data c @ [(key, v)]),
                onRemove := onRemove c @ [snd (hd (data c @ [(key, v)]))]\<rparr>
       \<and> add key None c = c
       \<and> (\<forall>k p. (k, p) \<in> set (data c) \<longrightarrow> get k c = (Some p, c))"
proof -
  have nk: "key \<notin> fst ` set (data c)" using assms(3) by (simp add: has_def)
  obtain k0 v0 rest where d: "data c @ [(key, v)] = (k0, v0) # rest"
    by (cases "data c @ [(key, v)]") auto
  have upd: "AList.update key v (data c) = (k0, v0) # rest"
    using nk d by (simp add: update_absent)
  have "distinct (map fst (data c @ [(key, v)]))"
    using assms(1) nk by (simp add: keys_def)
  then have fresh: "k0 \<notin> fst ` set rest"
    unfolding d by simp
  have "length (data c @ [(key, v)]) = Suc (max_size c)"
    using assms(2) by simp
  then have len: "length rest = max_size c"
    unfolding d by simp
  let ?c2 = "c\<lparr>data := AList.update key v (data c)\<rparr>"
  have "shrink ?c2 = ?c2\<lparr>data := rest, onRemove := onRemove ?c2 @ [v0]\<rparr>"
    by (rule shrink_one[where k = k0]) (use upd fresh len in simp_all)
  moreover have "add key (Some v) c = shrink ?c2"
    using assms(3) upd len by (simp add: add_def Let_def)
  ultimately have a: "add key (Some v) c
      = c\<lparr>data := tl (data c @ [(key, v)]),
           onRemove := onRemove c @ [snd (hd (data c @ [(key, v)]))]\<rparr>"
    unfolding d by simp
  have n: "add key None c = c" by (simp add: add_def)
  have g: "get k c = (Some p, c)" if "(k, p) \<in> set (data c)" for k p
  proof -
    have "map_of (data c) k = Some p"
      using assms(1) that unfolding keys_def by (rule map_of_is_SomeI)
    moreover have "has c k"
      using that unfolding has_def by force
    ultimately show ?thesis by (simp add: get_def)
  qed
  from a n g show ?thesis by blast
qed

text \<open>
  A cache of capacity 2 with the keys \<open>a\<close>, \<open>b\<close>, and the empty cache of capacity 0.
\<close>

theorem lru_add_evicts_oldest_witness:
  "add ''c'' (Some 3) \<lparr>max_size = 2, onRemove = [], data = [(''a'', 1::nat), (''b'', 2)]\<rparr>
     = \<lparr>max_size = 2, onRemove = [1], data = [(''b'', 2), (''c'', 3)]\<rparr>
   \<and> add ''c'' None \<lparr>max_size = 2, onRemove = [], data = [(''a'', 1::nat), (''b'', 2)]\<rparr>
     = \<lparr>max_size = 2, onRemove = [], data = [(''a'', 1::nat), (''b'', 2)]\<rparr>
   \<and> get ''a'' \<lparr>max_size = 2, onRemove = [], data = [(''a'', 1::nat), (''b'', 2)]\<rparr>
     = (Some 1, \<lparr>max_size = 2, onRemove = [], data = [(''a'', 1::nat), (''b'', 2)]\<rparr>)
   \<and> add ''c'' (Some 3) \<lparr>max_size = 0, onRemove = [], data = []\<rparr>
     = \<lparr>max_size = 0, onRemove = [3::nat], data = []\<rparr>"
proof -
  let ?C = "\<lparr>max_size = 2, onRemove = [], data = [(''a'', 1::nat), (''b'', 2)]\<rparr>"
  let ?E = "\<lparr>max_size = 0, onRemove = [], data = ([] :: (string \<times> nat) list)\<rparr>"
  have full: "distinct (keys ?C) \<and> length (data ?C) = max_size ?C \<and> \<not> has ?C ''c''"
    by (simp add: keys_def has_def)
  have empty: "distinct (keys ?E) \<and> length (data ?E) = max_size ?E \<and> \<not> has ?E ''c''"
    by (simp add: keys_def has_def)
  note th = lru_add_evicts_oldest [where c = ?C and key = "''c''" and v = 3,
      OF full[THEN conjunct1] full[THEN conjunct2, THEN conjunct1]
         full[THEN conjunct2, THEN conjunct2]]
  note th0 = lru_add_evicts_oldest [where c = ?E and key = "''c''" and v = 3,
      OF empty[THEN conjunct1] empty[THEN conjunct2, THEN conjunct1]
         empty[THEN conjunct2, THEN conjunct2]]
  have a: "add ''c'' (Some 3) ?C = \<lparr>max_size = 2, onRemove = [1], data = [(''b'', 2), (''c'', 3)]\<rparr>"
    using th[THEN conjunct1] by simp
  have n: "add ''c'' None ?C = ?C"
    by (rule th[THEN conjunct2, THEN conjunct1])
  have g: "get ''a'' ?C = (Some 1, ?C)"
    using th[THEN conjunct2, THEN conjunct2, rule_format, of "''a''" 1] by simp
  have z: "add ''c'' (Some 3) ?E = \<lparr>max_size = 0, onRemove = [3::nat], data = []\<rparr>"
    using th0[THEN conjunct1] by simp
  from a n g z show ?thesis by simp
qed

text \<open>
  C3 as stated fails: with capacity 2 and the keys \<open>a\<close>, \<open>b\<close> added in this order,
  reading \<open>a\<close> leaves the order \<open>a\<close>, \<open>b\<close>, and adding \<open>c\<close> afterwards evicts \<open>a\<close>,
  the key that was read last, and keeps \<open>b\<close>. And adding the third key \<open>c\<close> with a
  falsy payload evicts nothing: the cache stays as it is.
\<close>

theorem lru_get_promotes_counterexample:
  "keys (snd (get ''a'' \<lparr>max_size = 2, onRemove = [], data = [(''a'', 1::nat), (''b'', 2)]\<rparr>))
     = [''a'', ''b'']
   \<and> keys (add ''c'' (Some 3)
        (snd (get ''a'' \<lparr>max_size = 2, onRemove = [], data = [(''a'', 1::nat), (''b'', 2)]\<rparr>)))
     = [''b'', ''c'']
   \<and> onRemove (add ''c'' (Some 3)
        (snd (get ''a'' \<lparr>max_size = 2, onRemove = [], data = [(''a'', 1::nat), (''b'', 2)]\<rparr>)))
     = [1]
   \<and> add ''c'' None \<lparr>max_size = 2, onRemove = [], data = [(''a'', 1::nat), (''b'', 2)]\<rparr>
     = \<lparr>max_size = 2, onRemove = [], data = [(''a'', 1::nat), (''b'', 2)]\<rparr>"
  by code_simp

section \<open>Properties of fetching and cancellation\<close>

text \<open>
  C10. \<open>fetchTile\<close> on a url that is not an image bitmap, and \<open>fetchTileBuffer\<close>, called
  with an absent or empty task id, reject with the inner error \<open>taskId is null\<close> and
  leave the state as it was: no cache lookup and no network request is recorded, no
  controller is made.
\<close>

theorem fetch_without_taskId_rejects:
  assumes "falsy (taskId options)"
  shows "fetchTile net (Url u) options s = (Inl (InnerError ''taskId is null''), s)
       \<and> fetchTileBuffer net u options s = (Inl (InnerError ''taskId is null''), s)"
  using assms by (simp add: fetchTile_def fetchTileBuffer_def)

theorem fetch_without_taskId_rejects_witness:
  "fetchTile net_ok (Url ''u'') \<lparr>taskId = None, disableCache = False\<rparr> initialState
     = (Inl (InnerError ''taskId is null''), initialState)
   \<and> fetchTileBuffer net_ok ''u'' \<lparr>taskId = Some [], disableCache = False\<rparr> initialState
     = (Inl (InnerError ''taskId is null''), initialState)"
  using fetch_without_taskId_rejects [of "\<lparr>taskId = None, disableCache = False\<rparr>" net_ok "''u''" initialState]
    fetch_without_taskId_rejects [of "\<lparr>taskId = Some [], disableCache = False\<rparr>" net_ok "''u''" initialState]
  by (simp add: falsy_def)

text \<open>
  A hit of \<open>fetchTile\<close> resolves with a new bitmap of the same content, and the cache
  keeps its own.
\<close>

lemma fetchTile_hit_duplicates:
  assumes "\<not> falsy (taskId options)" and "fst (get u (tileImageCache s)) = Some img"
    and "heap s img = Some content" and "img < next_ref s"
  shows "fst (fetchTile net (Url u) options s) = Inr (next_ref s)
       \<and> next_ref s \<noteq> img
       \<and> heap (snd (fetchTile net (Url u) options s)) (next_ref s) = Some content
       \<and> fst (get u (tileImageCache (snd (fetchTile net (Url u) options s)))) = Some img"
  using assms
  by (simp add: fetchTile_def logEvent_def copyImageBitMap_def createImageBitmap_def alloc_def)

text \<open>
  C6 on the buffer path: a hit of \<open>fetchTileBuffer\<close> resolves with the very buffer the
  cache holds, not with a duplicate, and the cache goes on holding it.
\<close>

theorem fetchTileBuffer_hit_returns_cached_object:
  assumes "\<not> falsy (taskId options)" and "fst (get u (tileBufferCache s)) = Some buffer"
  shows "fst (fetchTileBuffer net u options s) = Inr buffer
       \<and> fst (get u (tileBufferCache (snd (fetchTileBuffer net u options s)))) = Some buffer"
  using assms by (simp add: fetchTileBuffer_def logEvent_def copyBuffer_def)

lemma first_fetch:
  "tileBufferCache (snd (fetchTileBuffer net_ok ''u'' \<lparr>taskId = Some ''t'', disableCache = False\<rparr> initialState))
     = \<lparr>max_size = 200, onRemove = [], data = [(''u'', 0)]\<rparr>"
  by (simp add: fetchTileBuffer_def falsy_def get_def has_def logEvent_def initialState_def
      newAbortController_def cacheFetch_def controlList_def net_ok_def alloc_def
      tileBufferCache_add_def add_def LRUCount_def finishFetch_def copyBuffer_def Let_def)

theorem fetchTileBuffer_hit_returns_cached_object_witness:
  "fst (fetchTileBuffer net_ok ''u'' \<lparr>taskId = Some ''t'', disableCache = False\<rparr>
         (snd (fetchTileBuffer net_ok ''u'' \<lparr>taskId = Some ''t'', disableCache = False\<rparr> initialState)))
     = Inr 0
   \<and> data (tileBufferCache (snd (fetchTileBuffer net_ok ''u'' \<lparr>taskId = Some ''t'', disableCache = False\<rparr>
         (snd (fetchTileBuffer net_ok ''u'' \<lparr>taskId = Some ''t'', disableCache = False\<rparr> initialState)))))
     = [(''u'', 0)]"
proof -
  let ?o = "\<lparr>taskId = Some ''t'', disableCache = False\<rparr>"
  let ?s = "snd (fetchTileBuffer net_ok ''u'' ?o initialState)"
  have h1: "\<not> falsy (taskId ?o)" by (simp add: falsy_def)
  have h2: "fst (get ''u'' (tileBufferCache ?s)) = Some 0"
    by (simp add: first_fetch get_def has_def)
  have "tileBufferCache (snd (fetchTileBuffer net_ok ''u'' ?o ?s)) = tileBufferCache ?s"
    using h1 h2 by (simp add: fetchTileBuffer_def logEvent_def copyBuffer_def)
  then show ?thesis
    using fetchTileBuffer_hit_returns_cached_object [OF h1 h2, of net_ok]
    by (simp add: first_fetch)
qed

subsection \<open>The cancellation registry\<close>

lemma fold_abort_CONTROLCACHE: "CONTROLCACHE (fold (abort r) l s) = CONTROLCACHE s"
  by (induction l arbitrary: s) (auto simp: abort_def split: option.splits)

lemma fold_abort_next_control: "next_control (fold (abort r) l s) = next_control s"
  by (induction l arbitrary: s) (auto simp: abort_def split: option.splits)

lemma fold_abort_signals:
  "signals (fold (abort r) l s) c =
     (if c \<in> set l then Some (case signals s c of None \<Rightarrow> r | Some x \<Rightarrow> x) else signals s c)"
  by (induction l arbitrary: s) (auto simp: abort_def split: option.splits)

lemma group_subset_concat: "map_of al U = Some lu \<Longrightarrow> set lu \<subseteq> set (concat (map snd al))"
  by (induction al) (auto split: if_splits)

lemma groups_disjoint:
  assumes "distinct (concat (map snd al))" "map_of al U = Some lu" "map_of al T = Some lt" "U \<noteq> T"
  shows "set lu \<inter> set lt = {}"
  using assms
proof (induction al)
  case Nil then show ?case by simp
next
  case (Cons p al)
  obtain k l where p: "p = (k, l)" by (cases p)
  from Cons.prems(1) p have d: "distinct (concat (map snd al))"
    and dl: "set l \<inter> set (concat (map snd al)) = {}" by auto
  show ?case
  proof (cases "k = U")
    case True
    with Cons.prems p have "lu = l" "map_of al T = Some lt" by auto
    with dl group_subset_concat[of al T lt] show ?thesis by blast
  next
    case False
    note kU = this
    show ?thesis
    proof (cases "k = T")
      case True
      with Cons.prems p have "lt = l" "map_of al U = Some lu" by auto
      with dl group_subset_concat[of al U lu] show ?thesis by blast
    next
      case False
      with kU Cons.prems p have "map_of al U = Some lu" "map_of al T = Some lt" by auto
      with Cons.IH d Cons.prems(4) show ?thesis by blast
    qed
  qed
qed

text \<open>
  The registry stays well-formed: it is so at the start, registering a controller
  that \<open>new AbortController()\<close> has just made keeps it so, and so do \<open>finishFetch\<close>,
  \<open>cancelFetch\<close> and with them \<open>fetchTile\<close> and \<open>fetchTileBuffer\<close>.
\<close>

lemma registry_ok_initialState: "registry_ok initialState"
  by (simp add: registry_ok_def initialState_def)

lemma concat_update_group:
  "set (concat (map snd (AList.update t ((case map_of al t of None \<Rightarrow> [] | Some l \<Rightarrow> l) @ [c]) al)))
     = insert c (set (concat (map snd al)))
   \<and> (distinct (concat (map snd al)) \<longrightarrow> c \<notin> set (concat (map snd al)) \<longrightarrow>
        distinct (concat (map snd (AList.update t ((case map_of al t of None \<Rightarrow> [] | Some l \<Rightarrow> l) @ [c]) al))))"
  by (induction al) auto

lemma registry_ok_register:
  assumes "registry_ok s"
  shows "registry_ok (cacheFetch t (fst (newAbortController s)) (snd (newAbortController s)))"
proof -
  define al where "al = CONTROLCACHE s"
  define c where "c = next_control s"
  define upd where "upd = AList.update t ((case map_of al t of None \<Rightarrow> [] | Some l \<Rightarrow> l) @ [c]) al"
  define old where "old = set (concat (map snd al))"
  have bound: "\<forall>x \<in> old. x < c"
    using assms unfolding registry_ok_def list_all_iff al_def c_def old_def by blast
  then have fresh: "c \<notin> old" by blast
  have S: "set (concat (map snd upd)) = insert c old"
    unfolding upd_def old_def by (rule concat_update_group[THEN conjunct1])
  have D: "distinct (concat (map snd upd))"
    using concat_update_group[THEN conjunct2, of al c t] assms fresh
    unfolding upd_def old_def registry_ok_def al_def by blast
  have K: "distinct (map fst upd)"
    using assms unfolding upd_def al_def registry_ok_def by (simp add: distinct_update)
  have B: "\<forall>x \<in> set (concat (map snd upd)). x < Suc c"
    unfolding S using bound by (simp add: less_Suc_eq)
  have tab: "CONTROLCACHE (cacheFetch t (fst (newAbortController s)) (snd (newAbortController s))) = upd"
    by (simp add: cacheFetch_def newAbortController_def controlList_def upd_def al_def c_def)
  have nc: "next_control (cacheFetch t (fst (newAbortController s)) (snd (newAbortController s))) = Suc c"
    by (simp add: cacheFetch_def newAbortController_def c_def)
  show ?thesis
    unfolding registry_ok_def tab nc list_all_iff using K D B by blast
qed

lemma concat_filter:
  "set (concat (map snd (filter P al))) \<subseteq> set (concat (map snd al))
   \<and> (distinct (concat (map snd al)) \<longrightarrow> distinct (concat (map snd (filter P al))))"
  by (induction al) auto

lemma concat_delete:
  "set (concat (map snd (AList.delete k al))) \<subseteq> set (concat (map snd al))
   \<and> (distinct (concat (map snd al)) \<longrightarrow> distinct (concat (map snd (AList.delete k al))))"
  unfolding AList.delete_eq by (rule concat_filter)

lemma fold_delete_ok:
  "distinct (map fst al) \<Longrightarrow> distinct (concat (map snd al)) \<Longrightarrow>
   distinct (map fst (fold AList.delete ks al))
   \<and> distinct (concat (map snd (fold AList.delete ks al)))
   \<and> set (concat (map snd (fold AList.delete ks al))) \<subseteq> set (concat (map snd al))"
proof (induction ks arbitrary: al)
  case Nil
  then show ?case by simp
next
  case (Cons k ks)
  from Cons.prems have "distinct (map fst (AList.delete k al))"
    and "distinct (concat (map snd (AList.delete k al)))"
    using concat_delete[of k al] by (simp_all add: distinct_delete)
  note ih = Cons.IH[OF this]
  have e: "fold AList.delete (k # ks) al = fold AList.delete ks (AList.delete k al)" by simp
  show ?case unfolding e using ih concat_delete[of k al] by blast
qed

lemma concat_remove1:
  "set (concat (map (remove1 c) ls)) \<subseteq> set (concat ls)
   \<and> (distinct (concat ls) \<longrightarrow> distinct (concat (map (remove1 c) ls)))"
proof (induction ls)
  case Nil
  then show ?case by simp
next
  case (Cons l ls)
  have sub: "set (remove1 c l) \<subseteq> set l" by (rule set_remove1_subset)
  from Cons have sub2: "set (concat (map (remove1 c) ls)) \<subseteq> set (concat ls)" by blast
  have "set (concat (map (remove1 c) (l # ls))) \<subseteq> set (concat (l # ls))"
    using sub sub2 by auto
  moreover have "distinct (concat (map (remove1 c) (l # ls)))" if "distinct (concat (l # ls))"
  proof -
    from that have dl: "distinct l" and dc: "distinct (concat ls)"
      and dj: "set l \<inter> set (concat ls) = {}" by auto
    have "distinct (remove1 c l)" using dl by simp
    moreover have "distinct (concat (map (remove1 c) ls))" using Cons dc by blast
    moreover have "set (remove1 c l) \<inter> set (concat (map (remove1 c) ls)) = {}"
      using sub sub2 dj by blast
    ultimately show ?thesis by simp
  qed
  ultimately show ?case by blast
qed

lemma registry_ok_finishFetch:
  assumes "registry_ok s"
  shows "registry_ok (finishFetch c s)"
proof -
  define sp where "sp = map (\<lambda>(k, l). (k, remove1 c l)) (CONTROLCACHE s)"
  define ks where "ks = map fst (filter (\<lambda>(k, l). l = []) sp)"
  define old where "old = set (concat (map snd (CONTROLCACHE s)))"
  have keys: "map fst sp = map fst (CONTROLCACHE s)"
    unfolding sp_def by (induction "CONTROLCACHE s") auto
  have vals: "map snd sp = map (remove1 c) (map snd (CONTROLCACHE s))"
    unfolding sp_def by (induction "CONTROLCACHE s") auto
  have d1: "distinct (map fst sp)" unfolding keys using assms by (simp add: registry_ok_def)
  have d2: "distinct (concat (map snd sp))" and s2: "set (concat (map snd sp)) \<subseteq> old"
    unfolding vals old_def using assms concat_remove1[of c "map snd (CONTROLCACHE s)"]
    by (simp_all add: registry_ok_def)
  note f = fold_delete_ok[OF d1 d2, of ks]
  have bound: "\<forall>x \<in> old. x < next_control s"
    using assms unfolding registry_ok_def list_all_iff old_def by blast
  have B: "\<forall>x \<in> set (concat (map snd (fold AList.delete ks sp))). x < next_control s"
    using f s2 bound by blast
  have tab: "CONTROLCACHE (finishFetch c s) = fold AList.delete ks sp"
    and nc: "next_control (finishFetch c s) = next_control s"
    by (simp_all add: finishFetch_def Let_def sp_def ks_def)
  show ?thesis
    unfolding registry_ok_def tab nc list_all_iff using f B by blast
qed

lemma registry_ok_cancelFetch:
  assumes "registry_ok s"
  shows "registry_ok (cancelFetch t s)"
proof -
  define old where "old = set (concat (map snd (CONTROLCACHE s)))"
  have tab: "CONTROLCACHE (cancelFetch t s) = AList.delete t (CONTROLCACHE s)"
    and nc: "next_control (cancelFetch t s) = next_control s"
    by (simp_all add: cancelFetch_def Let_def fold_abort_CONTROLCACHE fold_abort_next_control)
  have bound: "\<forall>x \<in> old. x < next_control s"
    using assms unfolding registry_ok_def list_all_iff old_def by blast
  have D: "distinct (concat (map snd (AList.delete t (CONTROLCACHE s))))"
    and S: "set (concat (map snd (AList.delete t (CONTROLCACHE s)))) \<subseteq> old"
    using assms concat_delete[of t "CONTROLCACHE s"] unfolding old_def registry_ok_def by blast+
  have K: "distinct (map fst (AList.delete t (CONTROLCACHE s)))"
    using assms by (simp add: registry_ok_def distinct_delete)
  have B: "\<forall>x \<in> set (concat (map snd (AList.delete t (CONTROLCACHE s)))). x < next_control s"
    using S bound by blast
  show ?thesis
    unfolding registry_ok_def tab nc list_all_iff using K D B by blast
qed

lemma registry_ok_frame:
  "CONTROLCACHE s' = CONTROLCACHE s \<Longrightarrow> next_control s' = next_control s \<Longrightarrow>
   registry_ok s \<Longrightarrow> registry_ok s'"
  by (simp add: registry_ok_def)

lemma fold_disposeImage_frame:
  "CONTROLCACHE (fold disposeImage rs s) = CONTROLCACHE s
   \<and> next_control (fold disposeImage rs s) = next_control s"
  by (induction rs arbitrary: s) (simp_all add: disposeImage_def)

lemma copyImageBitMap_frame:
  "CONTROLCACHE (snd (copyImageBitMap img s)) = CONTROLCACHE s
   \<and> next_control (snd (copyImageBitMap img s)) = next_control s"
  by (simp add: copyImageBitMap_def createImageBitmap_def alloc_def split: option.splits)

lemma registry_ok_started:
  assumes "registry_ok s"
  shows "registry_ok (logEvent e' (cacheFetch t (fst (newAbortController (logEvent e s)))
           (snd (newAbortController (logEvent e s)))))"
proof -
  have "registry_ok (logEvent e s)"
    using assms by (rule registry_ok_frame[rotated 2]) (simp_all add: logEvent_def)
  then have "registry_ok (cacheFetch t (fst (newAbortController (logEvent e s)))
           (snd (newAbortController (logEvent e s))))"
    by (rule registry_ok_register)
  then show ?thesis
    by (rule registry_ok_frame[rotated 2]) (simp_all add: logEvent_def)
qed

lemma registry_ok_fetchTile:
  assumes "registry_ok s"
  shows "registry_ok (snd (fetchTile net url options s))"
proof (cases url)
  case (Bitmap img)
  then show ?thesis
    using assms copyImageBitMap_frame[of img s]
    by (auto simp: fetchTile_def intro: registry_ok_frame)
next
  case (Url u)
  show ?thesis
  proof (cases "falsy (taskId options)")
    case True
    with Url assms show ?thesis by (simp add: fetchTile_def)
  next
    case False
    show ?thesis
    proof (cases "fst (get u (tileImageCache (logEvent (CacheGet u) s)))")
      case (Some img)
      have "registry_ok (logEvent (CacheGet u) s)"
        using assms by (rule registry_ok_frame[rotated 2]) (simp_all add: logEvent_def)
      then have "registry_ok (snd (copyImageBitMap img (logEvent (CacheGet u) s)))"
        using copyImageBitMap_frame[of img "logEvent (CacheGet u) s"]
        by (auto intro: registry_ok_frame)
      with Url False Some show ?thesis by (simp add: fetchTile_def)
    next
      case None
      define control where "control = fst (newAbortController (logEvent (CacheGet u) s))"
      define s2 where "s2 = logEvent (NetFetch u) (cacheFetch (the (taskId options)) control
           (snd (newAbortController (logEvent (CacheGet u) s))))"
      have ok2: "registry_ok s2"
        unfolding s2_def control_def using assms by (rule registry_ok_started)
      have fin: "registry_ok (finishFetch control s2)"
        using ok2 by (rule registry_ok_finishFetch)
      have eq: "snd (fetchTile net url options s) =
        (case net u of
           Rejected e \<Rightarrow> finishFetch control s2
         | Response ok body \<Rightarrow>
             (case body of
                Inl e \<Rightarrow> finishFetch control s2
              | Inr content \<Rightarrow>
                  (let (img, s3) = alloc content s2;
                       s4 = (if \<not> disableCache options then tileImageCache_add u img s3 else s3)
                   in snd (copyImageBitMap img (finishFetch control s4)))))"
        using Url False None
        by (simp add: fetchTile_def s2_def control_def Let_def split: prod.splits response.splits sum.splits)
      show ?thesis
      proof (cases "net u")
        case (Rejected e)
        with eq fin show ?thesis by simp
      next
        case (Response ok body)
        show ?thesis
        proof (cases body)
          case (Inl e)
          with eq fin Response show ?thesis by simp
        next
          case (Inr content)
          define s3 where "s3 = snd (alloc content s2)"
          define img where "img = fst (alloc content s2)"
          define s4 where "s4 = (if \<not> disableCache options then tileImageCache_add u img s3 else s3)"
          have "registry_ok s3"
            using ok2 unfolding s3_def
            by (rule registry_ok_frame[rotated 2]) (simp_all add: alloc_def)
          then have "registry_ok s4"
            unfolding s4_def tileImageCache_add_def Let_def
            using fold_disposeImage_frame
            by (auto intro!: registry_ok_frame[of _ s3])
          then have "registry_ok (finishFetch control s4)" by (rule registry_ok_finishFetch)
          then have "registry_ok (snd (copyImageBitMap img (finishFetch control s4)))"
            using copyImageBitMap_frame[of img "finishFetch control s4"]
            by (auto intro: registry_ok_frame)
          moreover have "snd (fetchTile net url options s) = snd (copyImageBitMap img (finishFetch control s4))"
            unfolding eq using Response Inr
            by (simp add: s3_def s4_def img_def Let_def split: prod.splits)
          ultimately show ?thesis by simp
        qed
      qed
    qed
  qed
qed

lemma registry_ok_fetchTileBuffer:
  assumes "registry_ok s"
  shows "registry_ok (snd (fetchTileBuffer net u options s))"
proof (cases "falsy (taskId options)")
  case True
  with assms show ?thesis by (simp add: fetchTileBuffer_def)
next
  case False
  show ?thesis
  proof (cases "fst (get u (tileBufferCache (logEvent (CacheGet u) s)))")
    case (Some buffer)
    have "registry_ok (logEvent (CacheGet u) s)"
      using assms by (rule registry_ok_frame[rotated 2]) (simp_all add: logEvent_def)
    with False Some show ?thesis by (simp add: fetchTileBuffer_def copyBuffer_def)
  next
    case None
    define control where "control = fst (newAbortController (logEvent (CacheGet u) s))"
    define s2 where "s2 = logEvent (NetFetch u) (cacheFetch (the (taskId options)) control
         (snd (newAbortController (logEvent (CacheGet u) s))))"
    have ok2: "registry_ok s2"
      unfolding s2_def control_def using assms by (rule registry_ok_started)
    have fin: "registry_ok (finishFetch control s2)"
      using ok2 by (rule registry_ok_finishFetch)
    have eq: "snd (fetchTileBuffer net u options s) =
      (case net u of
         Rejected e \<Rightarrow> finishFetch control s2
       | Response ok body \<Rightarrow>
           (case body of
              Inl e \<Rightarrow> finishFetch control s2
            | Inr content \<Rightarrow>
                (let (buffer, s3) = alloc content s2;
                     s4 = (if \<not> disableCache options then tileBufferCache_add u buffer s3 else s3)
                 in finishFetch control s4)))"
      using False None
      by (simp add: fetchTileBuffer_def s2_def control_def copyBuffer_def Let_def
          split: prod.splits response.splits sum.splits)
    show ?thesis
    proof (cases "net u")
      case (Rejected e)
      with eq fin show ?thesis by simp
    next
      case (Response ok body)
      show ?thesis
      proof (cases body)
        case (Inl e)
        with eq fin Response show ?thesis by simp
      next
        case (Inr content)
        define s3 where "s3 = snd (alloc content s2)"
        define buffer where "buffer = fst (alloc content s2)"
        define s4 where "s4 = (if \<not> disableCache options then tileBufferCache_add u buffer s3 else s3)"
        have "registry_ok s3"
          using ok2 unfolding s3_def
          by (rule registry_ok_frame[rotated 2]) (simp_all add: alloc_def)
        then have "registry_ok s4"
          unfolding s4_def tileBufferCache_add_def
          by (auto intro!: registry_ok_frame[of _ s3])
        then have "registry_ok (finishFetch control s4)" by (rule registry_ok_finishFetch)
        moreover have "snd (fetchTileBuffer net u options s) = finishFetch control s4"
          unfolding eq using Response Inr
          by (simp add: s3_def s4_def buffer_def Let_def split: prod.splits)
        ultimately show ?thesis by simp
      qed
    qed
  qed
qed

lemma inflight_eq:
  "CONTROLCACHE inflight = [(''T'', [0, 2]), (''U'', [1])] \<and> next_control inflight = 3
   \<and> signals inflight = (\<lambda>_. None)"
  by (simp add: inflight_def newAbortController_def cacheFetch_def controlList_def initialState_def)

text \<open>
  C7. In a well-formed registry \<open>cancelFetch T\<close> aborts every controller registered
  under \<open>T\<close> (a controller that was not aborted before gets the reason
  \<open>FetchCancelError\<close>), leaves the signal of every controller registered under another
  task \<open>U\<close> as it was, removes the group \<open>T\<close> from the table and keeps every other
  group.
\<close>

theorem cancelFetch_aborts_group_only:
  assumes "registry_ok s"
  shows "(\<forall>c \<in> set (controlList s T).
            signals (cancelFetch T s) c
              = Some (case signals s c of None \<Rightarrow> FetchCancelError | Some r \<Rightarrow> r))
       \<and> (\<forall>U c. U \<noteq> T \<longrightarrow> c \<in> set (controlList s U) \<longrightarrow>
            signals (cancelFetch T s) c = signals s c)
       \<and> map_of (CONTROLCACHE (cancelFetch T s)) T = None
       \<and> (\<forall>U. U \<noteq> T \<longrightarrow> controlList (cancelFetch T s) U = controlList s U)"
proof -
  have sig: "signals (cancelFetch T s) c =
     (if c \<in> set (controlList s T)
      then Some (case signals s c of None \<Rightarrow> FetchCancelError | Some x \<Rightarrow> x) else signals s c)" for c
    by (simp add: cancelFetch_def Let_def fold_abort_signals)
  have tab: "CONTROLCACHE (cancelFetch T s) = AList.delete T (CONTROLCACHE s)"
    by (simp add: cancelFetch_def Let_def fold_abort_CONTROLCACHE)
  have disj: "c \<notin> set (controlList s T)" if "U \<noteq> T" "c \<in> set (controlList s U)" for U c
  proof
    assume cT: "c \<in> set (controlList s T)"
    from that(2) obtain lu where lu: "map_of (CONTROLCACHE s) U = Some lu" "c \<in> set lu"
      by (cases "map_of (CONTROLCACHE s) U") (auto simp: controlList_def)
    from cT obtain lt where lt: "map_of (CONTROLCACHE s) T = Some lt" "c \<in> set lt"
      by (cases "map_of (CONTROLCACHE s) T") (auto simp: controlList_def)
    from assms have "distinct (concat (map snd (CONTROLCACHE s)))"
      by (simp add: registry_ok_def)
    from groups_disjoint[OF this lu(1) lt(1) that(1)] lu(2) lt(2) show False by auto
  qed
  have c1: "\<forall>c \<in> set (controlList s T).
            signals (cancelFetch T s) c
              = Some (case signals s c of None \<Rightarrow> FetchCancelError | Some r \<Rightarrow> r)"
    by (simp add: sig)
  have c2: "\<forall>U c. U \<noteq> T \<longrightarrow> c \<in> set (controlList s U) \<longrightarrow>
            signals (cancelFetch T s) c = signals s c"
    using disj by (simp add: sig)
  have c3: "map_of (CONTROLCACHE (cancelFetch T s)) T = None"
    by (simp add: tab AList.delete_conv)
  have c4: "\<forall>U. U \<noteq> T \<longrightarrow> controlList (cancelFetch T s) U = controlList s U"
    by (simp add: controlList_def tab AList.delete_conv)
  from c1 c2 c3 c4 show ?thesis by blast
qed

theorem cancelFetch_aborts_group_only_witness:
  "signals (cancelFetch ''T'' inflight) 0 = Some FetchCancelError
   \<and> signals (cancelFetch ''T'' inflight) 2 = Some FetchCancelError
   \<and> signals (cancelFetch ''T'' inflight) 1 = None
   \<and> map_of (CONTROLCACHE (cancelFetch ''T'' inflight)) ''T'' = None
   \<and> controlList (cancelFetch ''T'' inflight) ''U'' = [1]"
proof -
  have ok: "registry_ok inflight"
    by (simp add: registry_ok_def inflight_eq)
  have T: "controlList inflight ''T'' = [0, 2]" and U: "controlList inflight ''U'' = [1]"
    by (simp_all add: controlList_def inflight_eq)
  have ne: "''U'' \<noteq> ''T''" by simp
  note th = cancelFetch_aborts_group_only [OF ok, of "''T''"]
  note a = th [THEN conjunct1, rule_format]
  note b = th [THEN conjunct2, THEN conjunct1, rule_format, OF ne]
  note c = th [THEN conjunct2, THEN conjunct2, THEN conjunct1]
  note d = th [THEN conjunct2, THEN conjunct2, THEN conjunct2, rule_format, OF ne]
  have "signals (cancelFetch ''T'' inflight) 0 = Some FetchCancelError"
    using a [of 0] by (simp add: T inflight_eq)
  moreover have "signals (cancelFetch ''T'' inflight) 2 = Some FetchCancelError"
    using a [of 2] by (simp add: T inflight_eq)
  moreover have "signals (cancelFetch ''T'' inflight) 1 = None"
    using b [of 1] by (simp add: U inflight_eq)
  ultimately show ?thesis using c d by (simp add: U)
qed

section \<open>Properties of coverage planning\<close>

text \<open>A loop that appends is the concatenation over its index range.\<close>

lemma for_loop_append:
  "for_loop lo hi (\<lambda>i acc. acc @ f i) init = init @ concat (map f [lo..hi])"
proof (induction lo hi "\<lambda>i acc. acc @ f i" init rule: for_loop.induct)
  case (1 i hi s)
  show ?case
  proof (cases "i \<le> hi")
    case True
    then have "[i..hi] = i # [i + 1..hi]" by (simp add: upto_rec1)
    with True 1 show ?thesis by (subst for_loop.simps) simp
  next
    case False
    then show ?thesis by (subst for_loop.simps) simp
  qed
qed

lemma enumerate_tiles:
  "for_loop minrow maxrow (\<lambda>row. for_loop mincol maxcol (\<lambda>col acc. acc @ [h col row])) []
     = concat (map (\<lambda>row. map (\<lambda>col. h col row) [mincol..maxcol]) [minrow..maxrow])"
proof -
  have inner: "for_loop mincol maxcol (\<lambda>col acc. acc @ [h col row]) =
      (\<lambda>acc. acc @ map (\<lambda>col. h col row) [mincol..maxcol])" for row
    using for_loop_append[of mincol maxcol "\<lambda>col. [h col row]"] by (auto simp: fun_eq_iff concat_map_singleton)
  show ?thesis
    unfolding inner using for_loop_append[of minrow maxrow "\<lambda>row. map (\<lambda>col. h col row) [mincol..maxcol]" "[]"]
    by simp
qed

lemma cal4326Tiles_tiles:
  "map_option tiles (cal4326Tiles g tx ty tz zoomOffset isGCJ02) =
     (case range4326 g tx ty tz isGCJ02 of (mincol, maxcol, minrow, maxrow) \<Rightarrow>
        if maxcol < mincol \<or> maxrow < minrow then None
        else Some (for_loop minrow maxrow (\<lambda>row.
                     for_loop mincol maxcol (\<lambda>col acc. acc @ [(col - 1, row, tz + zoomOffset)])) []))"
  by (simp add: cal4326Tiles_def range4326_def Let_def ORIGIN_def split: prod.splits)

lemma cal3857Tiles_tiles:
  "map_option tiles (cal3857Tiles g tx ty tz zoomOffset isGCJ02) =
     (case range3857 g tx ty tz isGCJ02 of (mincol, maxcol, minrow, maxrow) \<Rightarrow>
        if maxcol < mincol \<or> maxrow < minrow then None
        else Some (for_loop minrow maxrow (\<lambda>row.
                     for_loop mincol maxcol (\<lambda>col acc. acc @ [(col, row, tz + zoomOffset)])) []))"
  by (simp add: cal3857Tiles_def range3857_def Let_def split: prod.splits)

text \<open>
  C4. Where \<open>cal4326Tiles\<close> (the geodetic source for a mercator request) returns a
  plan, its tiles are the pairs of the computed inclusive ranges, row by row, each
  with the column lowered by 1; the tiles of \<open>cal3857Tiles\<close> (the mercator source for
  a geodetic request) carry the computed columns as they are. Both return no plan
  exactly when a range is inverted.
\<close>

theorem tiles_column_shift:
  "map_option tiles (cal4326Tiles g tx ty tz zoomOffset isGCJ02) =
     (case range4326 g tx ty tz isGCJ02 of (mincol, maxcol, minrow, maxrow) \<Rightarrow>
        if maxcol < mincol \<or> maxrow < minrow then None
        else Some (concat (map (\<lambda>row. map (\<lambda>col. (col - 1, row, tz + zoomOffset)) [mincol..maxcol])
                            [minrow..maxrow])))
   \<and> map_option tiles (cal3857Tiles g tx ty tz zoomOffset isGCJ02) =
     (case range3857 g tx ty tz isGCJ02 of (mincol, maxcol, minrow, maxrow) \<Rightarrow>
        if maxcol < mincol \<or> maxrow < minrow then None
        else Some (concat (map (\<lambda>row. map (\<lambda>col. (col, row, tz + zoomOffset)) [mincol..maxcol])
                            [minrow..maxrow])))"
  by (simp add: cal4326Tiles_tiles cal3857Tiles_tiles
        enumerate_tiles[where h = "\<lambda>col row. (col - 1, row, tz + zoomOffset)"]
        enumerate_tiles[where h = "\<lambda>col row. (col, row, tz + zoomOffset)"] split: prod.splits)

lemma range4326_geo0: "range4326 geo0 0 0 0 False = (0, 1, 0, 0)"
  by (simp add: range4326_def geo0_def tileRange_def ORIGIN_def get4326Res_def TILESIZE_def
        FirstRes_def offsetTileBBOX_def)

lemma range3857_geo0: "range3857 geo0 0 0 0 False = (0, 0, 0, 0)"
  by (simp add: range3857_def geo0_def tileRange_def MORIGIN_def get3857Res_def TILESIZE_def
        mFirstRes_def offsetTileBBOX_def tile4326BBOX_def ORIGIN_def get4326Res_def FirstRes_def
        pointsToBBOX_def minmax_def bboxToPoints_def Let_def)

theorem tiles_column_shift_witness:
  "map_option tiles (cal4326Tiles geo0 0 0 0 0 False) = Some [(-1, 0, 0), (0, 0, 0)]
   \<and> map_option tiles (cal3857Tiles geo0 0 0 0 0 False) = Some [(0, 0, 0)]"
  using tiles_column_shift [of geo0 0 0 0 0 False]
  by (simp add: range4326_geo0 range3857_geo0 upto.simps)

lemma geo0_tiles:
  "map_option tiles (cal4326Tiles geo0 0 0 0 0 False) = Some [(-1, 0, 0), (0, 0, 0)]
   \<and> map_option tiles (cal3857Tiles geo0 0 0 0 0 False) = Some [(0, 0, 0)]"
  by (simp add: cal4326Tiles_tiles cal3857Tiles_tiles range4326_geo0 range3857_geo0
        enumerate_tiles[where h = "\<lambda>col row. (col - 1, row, 0)"]
        enumerate_tiles[where h = "\<lambda>col row. (col, row, 0)"] upto.simps)

subsection \<open>The offset correction for a web-mercator target\<close>













section \<open>Properties of the request\<close>

text \<open>
  C5. When the range computed for the request is inverted in its columns or in its
  rows, the planner returns no plan, and \<open>tileTransform\<close> settles with what the output
  encoder makes of the blank tile, without a single call of \<open>getTileWithMaxZoom\<close> and
  with the world untouched.
\<close>

theorem inverted_range_blank:
  assumes "(opt_projection options = ''EPSG:4326''
              \<and> inverted (range4326 g (opt_x options) (opt_y options) (opt_z options) (opt_isGCJ02 options)))
         \<or> (opt_projection options = ''EPSG:3857''
              \<and> inverted (range3857 g (opt_x options) (opt_y options) (opt_z options) (opt_isGCJ02 options)))"
  shows "planTiles g options = None
       \<and> tileTransform g env options w = (createImageTypeResult env (getBlankTile env), [], w)"
proof -
  have "planTiles g options = None"
    using assms cal4326Tiles_tiles[of g "opt_x options" "opt_y options" "opt_z options" "opt_zoomOffset options" "opt_isGCJ02 options"]
      cal3857Tiles_tiles[of g "opt_x options" "opt_y options" "opt_z options" "opt_zoomOffset options" "opt_isGCJ02 options"]
    by (auto simp: planTiles_def inverted_def split: prod.splits)
  then show ?thesis
    by (simp add: tileTransform_def returnImage_def)
qed

lemma range4326_geo_inverted: "range4326 geo_inverted 0 0 0 False = (1, 0, 0, 0)"
  by (simp add: range4326_def geo_inverted_def tileRange_def ORIGIN_def get4326Res_def TILESIZE_def
        FirstRes_def offsetTileBBOX_def)

theorem inverted_range_blank_witness:
  "planTiles geo_inverted (request ''EPSG:4326'') = None
   \<and> tileTransform geo_inverted env0 (request ''EPSG:4326'') 0 = (Inr 0, [], 0)"
  using inverted_range_blank [of "request ''EPSG:4326''" geo_inverted env0 0]
  by (simp add: request_def range4326_geo_inverted inverted_def env0_def)

text \<open>
  The loop of \<open>loadTile\<close> over the index \<open>loadCount\<close> fetches the remaining tiles in
  order and ends in the resampling branch.
\<close>

lemma loadTile_general:
  "loadTile env options plan (length done) (done @ map (\<lambda>t. (t, None)) rest) req w =
     (returnImage env
        (case resample env options plan (done @ zip rest (map Some (fst (fetchAll env rest w)))) of
           Some image1 \<Rightarrow> image1 | None \<Rightarrow> getBlankTile env),
      req @ rest, snd (fetchAll env rest w))"
proof (induction rest arbitrary: "done" req w)
  case Nil
  then show ?case by (subst loadTile.simps) simp
next
  case (Cons t rest)
  obtain r w' where f: "getTileWithMaxZoom env t w = (r, w')"
    by (cases "getTileWithMaxZoom env t w") auto
  obtain imgs w'' where fa: "fetchAll env rest w' = (imgs, w'')"
    by (cases "fetchAll env rest w'") auto
  let ?img = "case r of Inr img \<Rightarrow> img | Inl e \<Rightarrow> getBlankTile env"
  have step: "loadTile env options plan (length done) (done @ map (\<lambda>t. (t, None)) (t # rest)) req w
      = loadTile env options plan (length (done @ [(t, Some ?img)]))
          ((done @ [(t, Some ?img)]) @ map (\<lambda>t. (t, None)) rest) (req @ [t]) w'"
    by (subst loadTile.simps) (simp add: f nth_append list_update_append)
  show ?case
    unfolding step Cons.IH by (simp add: f fa)
qed

lemma tileTransform_loaded:
  assumes "planTiles g options = Some plan" "tiles plan \<noteq> []"
  shows "tileTransform g env options w =
     (returnImage env
        (case resample env options plan (loaded env (tiles plan) w) of
           Some image1 \<Rightarrow> image1 | None \<Rightarrow> getBlankTile env),
      tiles plan, snd (fetchAll env (tiles plan) w))"
  using assms loadTile_general[of env options plan "[]" "tiles plan" "[]" w]
  by (simp add: tileTransform_def loaded_def)

lemma fetchAll_length: "length (fst (fetchAll env ts w)) = length ts"
proof (induction ts arbitrary: w)
  case Nil
  then show ?case by simp
next
  case (Cons t ts)
  obtain r w' where f: "getTileWithMaxZoom env t w = (r, w')"
    by (cases "getTileWithMaxZoom env t w")
  obtain imgs w'' where fa: "fetchAll env ts w' = (imgs, w'')"
    by (cases "fetchAll env ts w'")
  from Cons[of w'] f fa show ?case by simp
qed

lemma fetchAll_nth:
  "i < length ts \<Longrightarrow>
   fst (fetchAll env ts w) ! i =
     (case fst (getTileWithMaxZoom env (ts ! i) (snd (fetchAll env (take i ts) w))) of
        Inr img \<Rightarrow> img | Inl e \<Rightarrow> getBlankTile env)"
proof (induction ts arbitrary: i w)
  case Nil
  then show ?case by simp
next
  case (Cons t ts)
  obtain r w' where f: "getTileWithMaxZoom env t w = (r, w')"
    by (cases "getTileWithMaxZoom env t w")
  obtain imgs w'' where fa: "fetchAll env ts w' = (imgs, w'')"
    by (cases "fetchAll env ts w'")
  show ?case
  proof (cases i)
    case 0
    with f fa show ?thesis by simp
  next
    case (Suc j)
    obtain imgs' v where fb: "fetchAll env (take j ts) w' = (imgs', v)"
      by (cases "fetchAll env (take j ts) w'")
    from Suc Cons.prems have "j < length ts" by simp
    from Cons.IH[OF this, of w'] Suc f fa fb show ?thesis by simp
  qed
qed

lemma plan4326_geo0:
  "\<exists>plan. planTiles geo0 (request ''EPSG:4326'') = Some plan \<and> tiles plan = [(-1, 0, 0), (0, 0, 0)]"
  using geo0_tiles by (auto simp: planTiles_def request_def)

lemma plan3857_geo0:
  "\<exists>plan. planTiles geo0 (request ''EPSG:3857'') = Some plan \<and> tiles plan = [(0, 0, 0)]
      \<and> bbox plan = (-180, -90, 180, 270)"
proof -
  from geo0_tiles obtain plan
    where p: "cal3857Tiles geo0 0 0 0 0 False = Some plan" "tiles plan = [(0, 0, 0)]"
    by auto
  from p(1) have "bbox plan = offsetTileBBOX geo0 (tile4326BBOX 0 0 0) ''EPSG:4326'' False"
    by (auto simp: cal3857Tiles_def Let_def split: prod.splits if_splits)
  then have "bbox plan = (-180, -90, 180, 270)"
    by (simp add: offsetTileBBOX_def tile4326BBOX_def ORIGIN_def get4326Res_def FirstRes_def
        TILESIZE_def Let_def)
  with p show ?thesis by (simp add: planTiles_def request_def)
qed

text \<open>
  C9. A request with a non-empty plan asks for every tile of the plan in order,
  whatever the fetches answer, and settles with what the output encoder makes of the
  resampled mosaic (or of the blank tile): a failed fetch never settles the request.
  The image of each tile in the mosaic is the answer of its fetch, in the world the
  earlier fetches left, and the blank tile if that fetch failed.
\<close>

theorem tile_failures_absorbed:
  assumes "planTiles g options = Some plan" and "tiles plan \<noteq> []"
  shows "tileTransform g env options w =
           (createImageTypeResult env
              (case resample env options plan (loaded env (tiles plan) w) of
                 Some image1 \<Rightarrow> image1 | None \<Rightarrow> getBlankTile env),
            tiles plan, snd (fetchAll env (tiles plan) w))
       \<and> map fst (loaded env (tiles plan) w) = tiles plan
       \<and> (\<forall>i < length (tiles plan).
             snd (loaded env (tiles plan) w ! i) =
               Some (case fst (getTileWithMaxZoom env (tiles plan ! i)
                                 (snd (fetchAll env (take i (tiles plan)) w))) of
                       Inr img \<Rightarrow> img | Inl e \<Rightarrow> getBlankTile env))"
proof -
  have a: "tileTransform g env options w =
           (createImageTypeResult env
              (case resample env options plan (loaded env (tiles plan) w) of
                 Some image1 \<Rightarrow> image1 | None \<Rightarrow> getBlankTile env),
            tiles plan, snd (fetchAll env (tiles plan) w))"
    using tileTransform_loaded[OF assms] by (simp add: returnImage_def)
  have b: "map fst (loaded env (tiles plan) w) = tiles plan"
    by (simp add: loaded_def fetchAll_length)
  have c: "snd (loaded env (tiles plan) w ! i) =
               Some (case fst (getTileWithMaxZoom env (tiles plan ! i)
                                 (snd (fetchAll env (take i (tiles plan)) w))) of
                       Inr img \<Rightarrow> img | Inl e \<Rightarrow> getBlankTile env)"
    if "i < length (tiles plan)" for i
    using that fetchAll_nth[OF that, of env w]
    by (simp add: loaded_def fetchAll_length)
  from a b c show ?thesis by blast
qed

theorem tile_failures_absorbed_witness:
  "tileTransform geo0 env1 (request ''EPSG:3857'') 0 = (Inr 1, [(0, 0, 0)], 1)
   \<and> loaded env1 [(0, 0, 0)] 0 = [((0, 0, 0), Some 0)]"
proof -
  from plan3857_geo0 obtain plan
    where p: "planTiles geo0 (request ''EPSG:3857'') = Some plan" "tiles plan = [(0, 0, 0)]"
      "bbox plan = (-180, -90, 180, 270)"
    by blast
  from p(2) have ne: "tiles plan \<noteq> []" by simp
  note th = tile_failures_absorbed [OF p(1) ne, of env1 0, THEN conjunct1]
  have l: "loaded env1 [(0, 0, 0)] 0 = [((0, 0, 0), Some 0)]"
    by (simp add: loaded_def env1_def)
  have f: "snd (fetchAll env1 [(0, 0, 0)] 0) = 1"
    by (simp add: env1_def)
  have r: "resample env1 (request ''EPSG:3857'') plan [((0, 0, 0), Some 0)] = Some 1"
    by (simp add: resample_def pass2_input_def request_def tilesImageData_def env1_def Let_def
        p(3) jsbbox_of_def transformTiles_def targetSize_def TILESIZE_def isNaN_def)
  from th show ?thesis
    unfolding p(2) l f r by (simp add: env1_def l)
qed

subsection \<open>The size guard of pass 2\<close>

text \<open>
  The frames that a plan hands to pass 2 come from min/max folds or from
  \<open>tile4326BBOX\<close>, and the box of pass 1 is a running min/max: the sizes computed
  from them are never negative and finite.
\<close>

lemma ext_ok_step: "ext_ok mn mx \<Longrightarrow> ext_ok (jmin mn v) (jmax mx v)"
  by (cases mn; cases mx; cases v) auto

lemma ext_ok_fold:
  "ext_ok xmin xmax \<Longrightarrow> ext_ok ymin ymax \<Longrightarrow>
   (case fold (\<lambda>(pt, _) (xmin, ymin, xmax, ymax).
                    (jmin xmin (fst pt), jmin ymin (snd pt), jmax xmax (fst pt), jmax ymax (snd pt)))
              ps (xmin, ymin, xmax, ymax) of
      (minx, miny, maxx, maxy) \<Rightarrow> ext_ok minx maxx \<and> ext_ok miny maxy)"
proof (induction ps arbitrary: xmin ymin xmax ymax)
  case Nil
  then show ?case by simp
next
  case (Cons p ps)
  obtain pt c where p: "p = (pt, c)" by (cases p)
  show ?case
    using Cons.IH[of "jmin xmin (fst pt)" "jmax xmax (fst pt)" "jmin ymin (snd pt)" "jmax ymax (snd pt)"]
      Cons.prems
    by (simp add: p ext_ok_step)
qed

lemma pixels_bbox_ok:
  "case pixels_bbox (tilesImageData env img tb b proj) of
     (minx, miny, maxx, maxy) \<Rightarrow> ext_ok minx maxx \<and> ext_ok miny maxy"
  using ext_ok_fold[of PInf NInf PInf NInf "projectPixels env img tb b proj"]
  by (simp add: tilesImageData_def Let_def)

lemma size_nonneg:
  assumes "lo \<le> hi" "ext_ok mn mx"
  shows "nonneg_size (jround (jdiv (jsub mx mn) (jdiv (jsub (Num hi) (Num lo)) (Num TILESIZE))))"
proof -
  have ax: "jdiv (jsub (Num hi) (Num lo)) (Num TILESIZE) = Num ((hi - lo) / 256)"
    by (simp add: TILESIZE_def)
  have nn: "0 \<le> (hi - lo) / 256" using assms(1) by simp
  show ?thesis
    unfolding ax using assms(2) nn
    by (cases mn; cases mx) (auto simp: zero_le_divide_iff)
qed

lemma extendBBOX_ordered: "ordered b \<Longrightarrow> ordered (extendBBOX p b)"
  by (cases p; cases b) (auto simp: ordered_def)

lemma fold_extendBBOX_ordered: "ordered b \<Longrightarrow> ordered (fold extendBBOX ps b)"
  by (induction ps arbitrary: b) (simp_all add: extendBBOX_ordered)

lemma minmax_ordered: "ordered (minmax ps)"
  unfolding minmax_def by (rule fold_extendBBOX_ordered) (simp add: ordered_def split: prod.splits)

lemma tile4326BBOX_ordered: "ordered (tile4326BBOX tx ty tz)"
proof -
  have "0 < get4326Res tz * TILESIZE"
    by (simp add: get4326Res_def TILESIZE_def FirstRes_def)
  then have "real_of_int tx * (get4326Res tz * TILESIZE) \<le> real_of_int (tx + 1) * (get4326Res tz * TILESIZE)"
    and "real_of_int ty * (get4326Res tz * TILESIZE) \<le> real_of_int (ty + 1) * (get4326Res tz * TILESIZE)"
    by (simp_all add: mult_right_mono)
  then show ?thesis
    by (simp add: tile4326BBOX_def ordered_def ORIGIN_def Let_def)
qed

lemma offsetTileBBOX_4326_ordered:
  "ordered b \<Longrightarrow> ordered (offsetTileBBOX g b ''EPSG:4326'' isGCJ02)"
  using minmax_ordered[of "map (gcoord_transform g WGS84 AMap) (bboxToPoints b)"]
  by (simp add: offsetTileBBOX_def Let_def split: prod.splits)

lemma plan_frame_ordered:
  assumes "planTiles g options = Some plan"
  shows "ordered (if opt_projection options = ''EPSG:4326'' then mbbox plan else bbox plan)"
proof (cases "opt_projection options = ''EPSG:4326''")
  case True
  with assms have "cal4326Tiles g (opt_x options) (opt_y options) (opt_z options)
                 (opt_zoomOffset options) (opt_isGCJ02 options) = Some plan"
    by (simp add: planTiles_def)
  then have "\<exists>ps. mbbox plan = minmax ps"
    by (auto simp: cal4326Tiles_def Let_def pointsToBBOX_def split: prod.splits if_splits)
  with True show ?thesis using minmax_ordered by auto
next
  case False
  with assms have "cal3857Tiles g (opt_x options) (opt_y options) (opt_z options)
                 (opt_zoomOffset options) (opt_isGCJ02 options) = Some plan"
    by (simp add: planTiles_def split: if_splits)
  then have "bbox plan = offsetTileBBOX g (tile4326BBOX (opt_x options) (opt_y options) (opt_z options))
                ''EPSG:4326'' (opt_isGCJ02 options)"
    by (auto simp: cal3857Tiles_def Let_def split: prod.splits if_splits)
  with False show ?thesis
    using offsetTileBBOX_4326_ordered[OF tile4326BBOX_ordered] by simp
qed

lemma targetSize_nonneg:
  assumes "ordered b" and
    "case pixels_bbox imageData of (minx, miny, maxx, maxy) \<Rightarrow> ext_ok minx maxx \<and> ext_ok miny maxy"
  shows "case targetSize imageData (jsbbox_of b) of (width, height) \<Rightarrow>
           nonneg_size width \<and> nonneg_size height"
proof -
  obtain xmin ymin xmax ymax where b: "b = (xmin, ymin, xmax, ymax)" by (cases b)
  obtain minx miny maxx maxy where pb: "pixels_bbox imageData = (minx, miny, maxx, maxy)"
    by (cases "pixels_bbox imageData")
  from assms b pb have "xmin \<le> xmax" "ymin \<le> ymax" "ext_ok minx maxx" "ext_ok miny maxy"
    by (simp_all add: ordered_def)
  then show ?thesis
    using size_nonneg[of xmin xmax minx maxx] size_nonneg[of ymin ymax miny maxy]
    by (simp add: targetSize_def b pb jsbbox_of_def Let_def)
qed

text \<open>
  The guard as the code writes it: \<open>NaN\<close>, an infinity, or 0 as the smaller of the
  two sizes. On sizes that are not negative and finite this is the same as one of them
  being degenerate.
\<close>

lemma transformTiles_None_iff:
  "transformTiles draw imageData mb dbg = None \<longleftrightarrow>
     (case targetSize imageData mb of (width, height) \<Rightarrow>
        isNaN width \<or> isNaN height \<or> jmin width height = Num 0
          \<or> jabs width = PInf \<or> jabs height = PInf)"
  by (simp add: transformTiles_def split: prod.splits)

lemma guard_iff:
  assumes "nonneg_size width" "nonneg_size height"
  shows "(isNaN width \<or> isNaN height \<or> jmin width height = Num 0
           \<or> jabs width = PInf \<or> jabs height = PInf)
         \<longleftrightarrow> (degenerate_size width \<or> degenerate_size height)"
  using assms by (cases width; cases height) (auto simp: isNaN_def min_def)

lemma empty_extent_degenerate:
  assumes "pixels_bbox imageData = (PInf, PInf, NInf, NInf)"
  shows "case targetSize imageData (jsbbox_of b) of (width, height) \<Rightarrow>
           degenerate_size width \<or> degenerate_size height"
  using assms by (cases b) (simp add: targetSize_def jsbbox_of_def Let_def)

text \<open>
  Outside a request the guard and the degenerate sizes differ: for a frame whose
  corners are swapped the width is negative and finite, and the guard lets it pass.
\<close>

lemma negative_size_passes_guard:
  "targetSize \<lparr>pixels = [], pixels_bbox = (Num 0, Num 0, Num 10, Num 10)\<rparr>
       (Num 256, Num 0, Num 0, Num 256) = (Num (-10), Num 10)
   \<and> transformTiles draw \<lparr>pixels = [], pixels_bbox = (Num 0, Num 0, Num 10, Num 10)\<rparr>
       (Num 256, Num 0, Num 0, Num 256) dbg
     = Some (draw \<lparr>pixels = [], pixels_bbox = (Num 0, Num 0, Num 10, Num 10)\<rparr>
               (Num 256, Num 0, Num 0, Num 256) dbg)"
  by (simp add: transformTiles_def targetSize_def TILESIZE_def isNaN_def)

text \<open>
  C8. In a request that reaches the resampler, pass 2 returns no raster exactly when
  the width or the height it computes is non-finite, at most 0, or \<open>NaN\<close>; and when
  it returns none, the request settles with what the output encoder makes of the blank
  tile.
\<close>

theorem degenerate_resample_blank:
  assumes "planTiles g options = Some plan" and "tiles plan \<noteq> []"
  shows "(resample env options plan (loaded env (tiles plan) w) = None \<longleftrightarrow>
            (case pass2_input env options plan (loaded env (tiles plan) w) of (imageData, mb) \<Rightarrow>
               (case targetSize imageData mb of (width, height) \<Rightarrow>
                  degenerate_size width \<or> degenerate_size height)))
       \<and> (resample env options plan (loaded env (tiles plan) w) = None \<longrightarrow>
            fst (tileTransform g env options w) = createImageTypeResult env (getBlankTile env))"
proof -
  let ?ts = "loaded env (tiles plan) w"
  obtain imageData mb where pi: "pass2_input env options plan ?ts = (imageData, mb)"
    by (cases "pass2_input env options plan ?ts")
  obtain width height where ts: "targetSize imageData mb = (width, height)"
    by (cases "targetSize imageData mb")
  have mb: "mb = jsbbox_of (if opt_projection options = ''EPSG:4326'' then mbbox plan else bbox plan)"
    using pi by (auto simp: pass2_input_def Let_def split: if_splits)
  have "imageData = tilesImageData env (layoutTiles env ?ts (opt_debug options)) (tilesbbox plan)
          (if opt_projection options = ''EPSG:4326'' then bbox plan else mbbox plan)
          (opt_projection options)"
    using pi by (auto simp: pass2_input_def Let_def split: if_splits)
  then have ok: "case pixels_bbox imageData of (minx, miny, maxx, maxy) \<Rightarrow> ext_ok minx maxx \<and> ext_ok miny maxy"
    using pixels_bbox_ok by metis
  have nn: "nonneg_size width \<and> nonneg_size height"
    using targetSize_nonneg[OF plan_frame_ordered[OF assms(1)] ok] ts mb by simp
  have "resample env options plan ?ts = None \<longleftrightarrow> degenerate_size width \<or> degenerate_size height"
    using guard_iff[of width height] nn
    by (simp add: resample_def pi transformTiles_None_iff ts)
  moreover have "resample env options plan ?ts = None \<longrightarrow>
            fst (tileTransform g env options w) = createImageTypeResult env (getBlankTile env)"
    by (simp add: tileTransform_loaded[OF assms] returnImage_def)
  ultimately show ?thesis by (simp add: pi ts)
qed

theorem degenerate_resample_blank_witness:
  "resample env0 (request ''EPSG:4326'') (the (planTiles geo0 (request ''EPSG:4326'')))
       (loaded env0 (tiles (the (planTiles geo0 (request ''EPSG:4326'')))) 0) = None
   \<and> fst (tileTransform geo0 env0 (request ''EPSG:4326'') 0) = Inr 0"
proof -
  from plan4326_geo0 obtain plan
    where p: "planTiles geo0 (request ''EPSG:4326'') = Some plan" "tiles plan = [(-1, 0, 0), (0, 0, 0)]"
    by blast
  from p(2) have ne: "tiles plan \<noteq> []" by simp
  note th = degenerate_resample_blank [OF p(1) ne, of env0 0]
  obtain imageData mb where pi: "pass2_input env0 (request ''EPSG:4326'') plan (loaded env0 (tiles plan) 0) = (imageData, mb)"
    by (cases "pass2_input env0 (request ''EPSG:4326'') plan (loaded env0 (tiles plan) 0)")
  then have pb: "pixels_bbox imageData = (PInf, PInf, NInf, NInf)" and mb: "mb = jsbbox_of (mbbox plan)"
    by (auto simp: pass2_input_def request_def tilesImageData_def env0_def Let_def)
  have "case targetSize imageData mb of (width, height) \<Rightarrow>
           degenerate_size width \<or> degenerate_size height"
    unfolding mb by (rule empty_extent_degenerate[OF pb])
  with th pi have none: "resample env0 (request ''EPSG:4326'') plan (loaded env0 (tiles plan) 0) = None"
    by simp
  with th have "fst (tileTransform geo0 env0 (request ''EPSG:4326'') 0) = Inr 0"
    by (simp add: env0_def)
  with none p(1) show ?thesis by simp
qed

section \<open>Properties of seam repair\<close>

lemma for_loop_preserves:
  assumes "\<And>i s. lo \<le> i \<Longrightarrow> i \<le> hi \<Longrightarrow> P s \<Longrightarrow> P (body i s)" and "P s"
  shows "P (for_loop lo hi body s)"
  using assms
proof (induction lo hi body s rule: for_loop.induct)
  case (1 i hi body s)
  show ?case
  proof (cases "i \<le> hi")
    case True
    have "P (for_loop (i + 1) hi body (body i s))"
    proof (rule "1.IH"[OF True])
      show "P (body j t)" if "i + 1 \<le> j" "j \<le> hi" "P t" for j t
        using that "1.prems"(1)[of j t] by simp
      show "P (body i s)" using "1.prems" True by simp
    qed
    with True show ?thesis by (subst for_loop.simps) simp
  next
    case False
    with "1.prems"(2) show ?thesis by (subst for_loop.simps) simp
  qed
qed

lemma for_none_iff: "for_none lo hi p \<longleftrightarrow> (\<forall>i. lo \<le> i \<and> i \<le> hi \<longrightarrow> \<not> p i)"
proof (induction lo hi p rule: for_none.induct)
  case (1 i hi p)
  show ?case
  proof (cases "i \<le> hi")
    case True
    show ?thesis
    proof (cases "p i")
      case True
      with \<open>i \<le> hi\<close> show ?thesis by (subst for_none.simps) auto
    next
      case False
      have "(\<forall>j. i \<le> j \<and> j \<le> hi \<longrightarrow> \<not> p j) \<longleftrightarrow> (\<forall>j. i + 1 \<le> j \<and> j \<le> hi \<longrightarrow> \<not> p j)"
        using False by (metis add1_zle_eq order_le_less)
      with "1.IH"[OF True False] True False show ?thesis by (subst for_none.simps) simp
    qed
  next
    case False
    then show ?thesis by (subst for_none.simps) auto
  qed
qed

lemma length_wr: "length (wr d i v) = length d"
  by (simp add: wr_def)

lemma rd_wr_other: "i \<noteq> j \<Longrightarrow> rd (wr d i v) j = rd d j"
  by (auto simp: rd_def wr_def)

lemma length_copyPixel: "length (copyPixel idx1 idx2 d) = length d"
  by (simp add: copyPixel_def Let_def length_wr)

lemma rd_copyPixel_other:
  "j < idx1 \<or> idx1 + 3 < j \<Longrightarrow> rd (copyPixel idx1 idx2 d) j = rd d j"
  by (auto simp: copyPixel_def Let_def rd_wr_other)

lemma split_index:
  fixes W :: int
  assumes "0 \<le> x" "x < W" "0 \<le> y" "y < W" "W * a + x = W * b + y"
  shows "x = y"
proof -
  have "(W * a + x) mod W = x" using assms(1,2) by simp
  moreover have "(W * b + y) mod W = y" using assms(3,4) by simp
  ultimately show ?thesis using assms(5) by simp
qed

lemma pixel_disjoint:
  assumes "1 \<le> c" "c \<le> width" "1 \<le> col" "col \<le> width" "c \<noteq> col" "0 \<le> k" "k < 4"
  shows "pixelIndex width row col + k < pixelIndex width r c
       \<or> pixelIndex width r c + 3 < pixelIndex width row col + k"
proof (rule ccontr)
  assume "\<not> ?thesis"
  define k' where "k' = pixelIndex width row col + k - pixelIndex width r c"
  from \<open>\<not> ?thesis\<close> have k': "0 \<le> k'" "k' < 4" unfolding k'_def by linarith+
  have eq: "pixelIndex width row col + k = pixelIndex width r c + k'"
    unfolding k'_def by simp
  have "(width * 4) * (row - 1) + ((col - 1) * 4 + k) = (width * 4) * (r - 1) + ((c - 1) * 4 + k')"
    using eq by (simp add: pixelIndex_def)
  then have "(col - 1) * 4 + k = (c - 1) * 4 + k'"
    by (rule split_index[rotated 4]) (use assms k' in auto)
  with assms k' show False by presburger
qed

lemma fixCol_frame:
  assumes "1 \<le> c" "c \<le> width" "1 \<le> col" "col \<le> width" "c \<noteq> col" "0 \<le> k" "k < 4"
  shows "rd (fixCol width height c c2 d) (pixelIndex width row col + k)
           = rd d (pixelIndex width row col + k)"
  unfolding fixCol_def
proof (rule for_loop_preserves[where P = "\<lambda>s. rd s (pixelIndex width row col + k) = rd d (pixelIndex width row col + k)"])
  fix r :: int and s :: "nat list"
  assume "rd s (pixelIndex width row col + k) = rd d (pixelIndex width row col + k)"
  moreover have "rd (copyPixel (pixelIndex width r c) (pixelIndex width r c2) s) (pixelIndex width row col + k)
      = rd s (pixelIndex width row col + k)"
    by (rule rd_copyPixel_other) (rule pixel_disjoint[OF assms])
  ultimately show "rd (copyPixel (width * 4 * (r - 1) + (c - 1) * 4) (width * 4 * (r - 1) + (c2 - 1) * 4) s)
      (pixelIndex width row col + k) = rd d (pixelIndex width row col + k)"
    by (simp add: pixelIndex_def)
qed simp

lemma colBlanks_eq:
  "for_loop 1 width (\<lambda>col acc. acc @ [colIsBlank width height d col]) []
     = map (colIsBlank width height d) [1..width]"
  using for_loop_append[of 1 width "\<lambda>col. [colIsBlank width height d col]" "[]"]
  by (simp add: concat_map_singleton)

lemma elem_colBlanks:
  assumes "1 \<le> c" "c \<le> width"
  shows "elem (map f [1..width]) (c - 1) = Some (f c)"
proof -
  have "nat (c - 1) < length [1..width]" using assms by simp
  moreover have "[1..width] ! nat (c - 1) = c"
    using assms nth_upto[of 1 "nat (c - 1)" width] by simp
  ultimately show ?thesis using assms by (simp add: elem_def)
qed

lemma column_unchanged:
  assumes q: "1 \<le> q" "q \<le> width"
    and edges: "\<not> leftIsBlank width height d" "\<not> bottomIsBlank width height d"
    and keep: "\<not> colIsBlank width height d q \<or> (q < width \<and> colIsBlank width height d (q + 1))"
    and k: "0 \<le> k" "k < 4"
  shows "rd (checkBoundaryBlank width height d) (pixelIndex width row q + k)
           = rd d (pixelIndex width row q + k)"
proof -
  let ?cb = "map (colIsBlank width height d) [1..width]"
  let ?j = "pixelIndex width row q + k"
  let ?body = "\<lambda>col d'.
             (let current = elem ?cb (col - 1)
              in if \<not> truthy current then d'
                 else
                   (let next = elem ?cb col; pre = elem ?cb (col - 1)
                    in if \<not> truthy next then fixCol width height col (col + 1) d'
                       else if \<not> truthy pre then fixCol width height col (col - 1) d'
                       else d'))"
  have step: "rd (?body c s) ?j = rd d ?j" if "1 \<le> c" "c \<le> width" "rd s ?j = rd d ?j" for c s
  proof (cases "c = q")
    case True
    have cur: "elem ?cb (c - 1) = Some (colIsBlank width height d q)"
      using q True by (simp add: elem_colBlanks)
    show ?thesis
    proof (cases "colIsBlank width height d q")
      case False
      with cur that(3) show ?thesis by (simp add: Let_def truthy_def)
    next
      case blank: True
      with keep have nx: "q < width" "colIsBlank width height d (q + 1)" by auto
      then have "elem ?cb c = Some True"
        using elem_colBlanks[of "q + 1" width "colIsBlank width height d"] q True by simp
      with cur blank that(3) show ?thesis by (simp add: Let_def truthy_def)
    qed
  next
    case False
    have "rd (fixCol width height c c2 s) ?j = rd s ?j" for c2
      using fixCol_frame[OF that(1,2) q False k] by simp
    with that(3) show ?thesis by (simp add: Let_def)
  qed
  have loop: "rd (for_loop 1 width ?body d) ?j = rd d ?j"
    by (rule for_loop_preserves[where P = "\<lambda>s. rd s ?j = rd d ?j"]) (use step in auto)
  show ?thesis
    using edges loop by (simp add: checkBoundaryBlank_def colBlanks_eq Let_def)
qed

lemma colIsBlank_iff:
  "colIsBlank width height d col \<longleftrightarrow>
     (\<forall>row. 1 \<le> row \<and> row \<le> height \<longrightarrow> \<not> gt0 (rd d (pixelIndex width row col + 3)))"
  by (simp add: colIsBlank_def for_none_iff pixelIndex_def)

text \<open>
  C2, as the code has it. Let neither the left column nor the bottom row be blank. An
  interior column that is blank and whose next column is blank too stays blank, also
  when the column before it is not blank: the code reads \<open>pre\<close> from
  \<open>colBlanks[col - 1]\<close>, the entry of the column itself, so the copy from the previous
  column never runs.
\<close>

theorem blank_column_not_repaired:
  assumes "1 < col" and "col < width"
    and "\<not> leftIsBlank width height d" and "\<not> bottomIsBlank width height d"
    and "\<not> colIsBlank width height d (col - 1)"
    and "colIsBlank width height d col" and "colIsBlank width height d (col + 1)"
  shows "colIsBlank width height (checkBoundaryBlank width height d) col
       \<and> \<not> colIsBlank width height (checkBoundaryBlank width height d) (col - 1)"
proof -
  have a: "rd (checkBoundaryBlank width height d) (pixelIndex width row col + 3)
      = rd d (pixelIndex width row col + 3)" for row
    by (rule column_unchanged) (use assms in auto)
  have b: "rd (checkBoundaryBlank width height d) (pixelIndex width row (col - 1) + 3)
      = rd d (pixelIndex width row (col - 1) + 3)" for row
    by (rule column_unchanged) (use assms in auto)
  show ?thesis
    using assms(5,6) by (simp add: colIsBlank_iff a b)
qed

lemma concat_replicate_nth:
  "i < n * length r \<Longrightarrow> concat (replicate n r) ! i = r ! (i mod length r)"
proof (induction n arbitrary: i)
  case 0
  then show ?case by simp
next
  case (Suc n)
  show ?case
  proof (cases "i < length r")
    case True
    then show ?thesis by (simp add: nth_append)
  next
    case False
    then have "i - length r < n * length r" using Suc.prems by simp
    from Suc.IH[OF this] False show ?thesis
      by (simp add: nth_append le_mod_geq)
  qed
qed

lemma length_concat_replicate: "length (concat (replicate n r)) = n * length r"
  by (induction n) simp_all

lemma rd_stripe:
  assumes "0 \<le> i" "i < 262144"
  shows "rd stripe i = Some (if i mod 1024 = 0 \<or> i mod 1024 = 3 then 255 else 0)"
proof -
  let ?r = "[255, 0, 0, 255] @ replicate 1020 (0::nat)"
  have len: "length stripe = 262144" by (simp add: stripe_def length_concat_replicate)
  have lr: "length ?r = 1024" by simp
  have "nat i < 256 * length ?r" using assms by simp
  then have "stripe ! nat i = ?r ! (nat i mod length ?r)"
    unfolding stripe_def by (rule concat_replicate_nth)
  also have "nat i mod length ?r = nat (i mod 1024)"
    using assms by (simp add: nat_mod_distrib)
  finally have n: "stripe ! nat i = ?r ! nat (i mod 1024)" .
  have m: "0 \<le> i mod 1024" "i mod 1024 < 1024" by simp_all
  have "?r ! nat j = (if j = 0 \<or> j = 3 then 255 else 0)" if "0 \<le> j" "j < 1024" for j :: int
  proof -
    show ?thesis
    proof (cases "4 \<le> j")
      case True
      then have lt: "nat j - 4 < 1020" and ge: "\<not> nat j < 4" using that by simp_all
      have "?r ! nat j = replicate 1020 (0::nat) ! (nat j - 4)"
        using ge by (subst nth_append) (simp add: eval_nat_numeral)
      with True lt show ?thesis by simp
    next
      case False
      with that have "j = 0 \<or> j = 1 \<or> j = 2 \<or> j = 3" by linarith
      then show ?thesis by (elim disjE) simp_all
    qed
  qed
  from this[OF m] n assms len show ?thesis by (simp add: rd_def)
qed

lemma stripe_first_column:
  "\<not> leftIsBlank 256 256 stripe" "\<not> bottomIsBlank 256 256 stripe" "\<not> colIsBlank 256 256 stripe 1"
proof -
  have a: "gt0 (rd stripe 3)" by (simp add: rd_stripe gt0_def)
  have b: "gt0 (rd stripe 261123)" by (simp add: rd_stripe gt0_def)
  show "\<not> leftIsBlank 256 256 stripe"
    unfolding leftIsBlank_def for_none_iff using a by (auto intro!: exI[of _ 1])
  show "\<not> bottomIsBlank 256 256 stripe"
    unfolding bottomIsBlank_def for_none_iff using b by (auto intro!: exI[of _ 1])
  show "\<not> colIsBlank 256 256 stripe 1"
    unfolding colIsBlank_def for_none_iff using a by (auto intro!: exI[of _ 1])
qed

lemma stripe_blank_columns:
  assumes "2 \<le> col" "col \<le> 256"
  shows "colIsBlank 256 256 stripe col"
  unfolding colIsBlank_iff
proof (intro allI impI)
  fix row :: int
  assume r: "1 \<le> row \<and> row \<le> 256"
  let ?i = "pixelIndex 256 row col + 3"
  have i: "?i = 1024 * (row - 1) + ((col - 1) * 4 + 3)" by (simp add: pixelIndex_def)
  from r have r1: "1 \<le> row" and r2: "row \<le> 256" by simp_all
  have lo: "0 \<le> ?i" unfolding i using r1 assms by simp
  have hi: "?i < 262144" unfolding i using r2 assms by simp
  note range = lo hi
  have "?i mod 1024 = ((col - 1) * 4 + 3) mod 1024" unfolding i by (rule mod_mult_self4)
  also have "\<dots> = (col - 1) * 4 + 3" using assms by simp
  finally have m: "?i mod 1024 = (col - 1) * 4 + 3" .
  have "?i mod 1024 \<noteq> 0" "?i mod 1024 \<noteq> 3" unfolding m using assms by simp_all
  with rd_stripe[OF range] show "\<not> gt0 (rd stripe ?i)" by (simp add: gt0_def)
qed

theorem blank_column_not_repaired_witness:
  "colIsBlank 256 256 (checkBoundaryBlank 256 256 stripe) 2
   \<and> \<not> colIsBlank 256 256 (checkBoundaryBlank 256 256 stripe) 1"
  using blank_column_not_repaired [of 2 256 256 stripe]
    stripe_first_column stripe_blank_columns[of 2] stripe_blank_columns[of 3]
  by simp

text \<open>
  A blank last column is overwritten as well: its \<open>next\<close> is read beyond the end of
  \<open>colBlanks\<close>, and the copy takes the bytes that follow the row, the first pixel of
  the next row and nothing after the last row. Here on 3 by 2 pixels.
\<close>

lemma last_column_takes_next_row:
  "checkBoundaryBlank 3 2 ([255, 0, 0, 255, 255, 0, 0, 255, 0, 0, 0, 0]
                          @ [9, 9, 9, 9, 9, 9, 9, 9, 0, 0, 0, 0])
     = [255, 0, 0, 255, 255, 0, 0, 255, 9, 9, 9, 9] @ [9, 9, 9, 9, 9, 9, 9, 9, 0, 0, 0, 0]"
  by code_simp

end
